theory Spec2Isabelle
  imports Complex_Main "HOL-Library.Multiset"
begin

text \<open>
  The detection pipeline of the dashboard: the registry of latest objects
  (\<^verbatim>\<open>buildLatestObjects\<close>) and the proximity alerts (the memo \<^verbatim>\<open>intruders\<close>) of
  \<^verbatim>\<open>pages/Dashboard.tsx\<close>, the marker clustering (\<^verbatim>\<open>getMarkerDescriptors\<close>) and the
  geofence ring (\<^verbatim>\<open>createCirclePolygon\<close>) of the map component, and the coordinate
  helpers of \<^verbatim>\<open>utils/objectGeo.ts\<close>.  All of them are pure functions of their
  arguments; an iteration over an array is a fold, the \<^verbatim>\<open>Map\<close>s are association lists in
  insertion order.
\<close>

section \<open>JavaScript values\<close>

text \<open>
  A JavaScript number is a real when it is finite, with the three non-finite values kept
  apart, because the code tests \<^verbatim>\<open>typeof x === 'number'\<close> and
  \<^verbatim>\<open>Number.isFinite(x)\<close>; the latter is the case \<open>Finite\<close>.  The rounding of the
  doubles is a parameter of the great-circle distance, where it decides a case; the
  clustering and the ring are over exact reals.
\<close>

datatype jsnum = Finite real | NaN | PosInf | NegInf

text \<open>
  The values a field of a decoded JSON object can hold.  An object is its list of
  properties; a missing property reads as \<^verbatim>\<open>undefined\<close>.  Arrays as field values are
  not modelled.
\<close>

datatype jsval =
    JUndefined
  | JNull
  | JBool bool
  | JNum jsnum
  | JStr string
  | JObj "(string \<times> jsval) list"

type_synonym DetectedObject = "(string \<times> jsval) list"

definition get_prop :: "(string \<times> jsval) list \<Rightarrow> string \<Rightarrow> jsval" where
  "get_prop obj k = (case map_of obj k of None \<Rightarrow> JUndefined | Some v \<Rightarrow> v)"

text \<open>\<^verbatim>\<open>source[key]\<close> for a value that passed the truthiness test: only objects carry
  the coordinate keys, every other value reads as \<^verbatim>\<open>undefined\<close>.\<close>

definition get_member :: "jsval \<Rightarrow> string \<Rightarrow> jsval" where
  "get_member v k = (case v of JObj ps \<Rightarrow> get_prop ps k | _ \<Rightarrow> JUndefined)"

text \<open>JavaScript truthiness (\<^verbatim>\<open>!source\<close>, \<^verbatim>\<open>speed && ...\<close>).\<close>

definition truthy :: "jsval \<Rightarrow> bool" where
  "truthy v = (case v of
       JUndefined \<Rightarrow> False
     | JNull \<Rightarrow> False
     | JBool b \<Rightarrow> b
     | JNum n \<Rightarrow> (case n of Finite r \<Rightarrow> r \<noteq> 0 | NaN \<Rightarrow> False | _ \<Rightarrow> True)
     | JStr s \<Rightarrow> s \<noteq> []
     | JObj _ \<Rightarrow> True)"

text \<open>The nullish coalescing operator \<^verbatim>\<open>a ?? b\<close>.\<close>

definition nullish :: "jsval \<Rightarrow> jsval \<Rightarrow> jsval" where
  "nullish a b = (if a = JUndefined \<or> a = JNull then b else a)"

subsection \<open>\<^verbatim>\<open>parseFloat\<close>\<close>

text \<open>
  The built-in \<^verbatim>\<open>parseFloat\<close>: leading white space is dropped, then the longest
  prefix that is a decimal literal (sign, digits, fraction, exponent, or
  \<^verbatim>\<open>Infinity\<close>) is read; without such a prefix the result is \<^verbatim>\<open>NaN\<close>.  A string is
  the list of its code units, which are below 256 here; of these the white space is tab,
  line feed, vertical tab, form feed, carriage return, space and the no-break space.  A
  decimal too large for a double is \<^verbatim>\<open>Infinity\<close>; a smaller one is kept as the exact
  decimal.
\<close>

definition is_ws :: "char \<Rightarrow> bool" where
  "is_ws c = (c \<in> set [CHR 0x09, CHR 0x0A, CHR 0x0B, CHR 0x0C, CHR 0x0D, CHR 0x20, CHR 0xA0])"

text \<open>A decimal value of at least \<^verbatim>\<open>2^1024 - 2^970\<close> rounds to \<^verbatim>\<open>Infinity\<close>.\<close>

definition overflow_bound :: real where
  "overflow_bound = 2 ^ 1024 - 2 ^ 970"

definition digit_of :: "char \<Rightarrow> nat option" where
  "digit_of c =
     map_of [(CHR ''0'', 0), (CHR ''1'', 1), (CHR ''2'', 2), (CHR ''3'', 3), (CHR ''4'', 4),
             (CHR ''5'', 5), (CHR ''6'', 6), (CHR ''7'', 7), (CHR ''8'', 8), (CHR ''9'', 9)] c"

definition is_digit :: "char \<Rightarrow> bool" where
  "is_digit c = (digit_of c \<noteq> None)"

definition digits_value :: "string \<Rightarrow> nat" where
  "digits_value ds = foldl (\<lambda>n c. case digit_of c of None \<Rightarrow> n | Some d \<Rightarrow> 10 * n + d) 0 ds"

definition strip_sign :: "string \<Rightarrow> bool \<times> string" where
  "strip_sign s = (case s of
       [] \<Rightarrow> (False, [])
     | c # r \<Rightarrow> if c = CHR ''-'' then (True, r) else if c = CHR ''+'' then (False, r) else (False, s))"

definition exponent_part :: "string \<Rightarrow> int" where
  "exponent_part s = (case s of
       [] \<Rightarrow> 0
     | c # r \<Rightarrow>
         if c = CHR ''e'' \<or> c = CHR ''E'' then
           (let es = takeWhile is_digit (snd (strip_sign r)) in
            if es = [] then 0
            else if fst (strip_sign r) then - int (digits_value es) else int (digits_value es))
         else 0)"

definition parseFloat :: "string \<Rightarrow> jsnum" where
  "parseFloat s =
     (let t = dropWhile is_ws s;
          neg = fst (strip_sign t);
          u = snd (strip_sign t)
      in if take 8 u = ''Infinity'' then (if neg then NegInf else PosInf)
         else
           (let ip = takeWhile is_digit u;
                r1 = dropWhile is_digit u;
                dot = (case r1 of [] \<Rightarrow> False | c # _ \<Rightarrow> c = CHR ''.'');
                fp = (if dot then takeWhile is_digit (tl r1) else []);
                r2 = (if dot then dropWhile is_digit (tl r1) else r1);
                m = (real (digits_value ip) + real (digits_value fp) / 10 ^ length fp)
                      * 10 powi exponent_part r2
            in if ip = [] \<and> fp = [] then NaN
               else if overflow_bound \<le> m then (if neg then NegInf else PosInf)
               else Finite (if neg then - m else m)))"

section \<open>Coordinate resolution\<close>

text \<open>\<^verbatim>\<open>toValidNumber\<close> of \<^verbatim>\<open>utils/objectGeo.ts\<close>; \<^verbatim>\<open>null\<close> is \<open>None\<close>.\<close>

definition toValidNumber :: "jsval \<Rightarrow> real option" where
  "toValidNumber v = (case v of
       JNum n \<Rightarrow> (case n of Finite r \<Rightarrow> Some r | _ \<Rightarrow> None)
     | JStr s \<Rightarrow> (case parseFloat s of Finite r \<Rightarrow> Some r | _ \<Rightarrow> None)
     | _ \<Rightarrow> None)"

fun first_numeric :: "jsval \<Rightarrow> string list \<Rightarrow> real option" where
  "first_numeric source [] = None"
| "first_numeric source (key # keys) =
     (case toValidNumber (get_member source key) of
        Some r \<Rightarrow> Some r
      | None \<Rightarrow> first_numeric source keys)"

definition extractFromSource :: "jsval \<Rightarrow> string list \<Rightarrow> real option" where
  "extractFromSource source keys = (if \<not> truthy source then None else first_numeric source keys)"

text \<open>\<^verbatim>\<open>a ?? b\<close> on results that are a number or \<^verbatim>\<open>null\<close>.\<close>

definition orElse :: "real option \<Rightarrow> real option \<Rightarrow> real option" where
  "orElse a b = (case a of None \<Rightarrow> b | Some r \<Rightarrow> Some r)"

definition extractCoordinate :: "DetectedObject \<Rightarrow> string list \<Rightarrow> real option" where
  "extractCoordinate object keys =
     orElse (extractFromSource (JObj object) keys)
       (orElse (extractFromSource (get_prop object ''details'') keys)
          (orElse (extractFromSource (get_prop object ''detail'') keys) None))"

definition getObjectLatitude :: "DetectedObject \<Rightarrow> real option" where
  "getObjectLatitude object = extractCoordinate object [''lat'', ''latitude'']"

definition getObjectLongitude :: "DetectedObject \<Rightarrow> real option" where
  "getObjectLongitude object = extractCoordinate object [''lng'', ''lon'', ''long'', ''longitude'']"

text \<open>\<^verbatim>\<open>toOptionalNumber\<close> and \<^verbatim>\<open>getPrimaryCoordinates\<close> of the map component.\<close>

record LatLng =
  lat :: real
  lng :: real

definition toOptionalNumber :: "jsval \<Rightarrow> real option" where
  "toOptionalNumber v = (case v of
       JNum n \<Rightarrow> (case n of Finite r \<Rightarrow> Some r | _ \<Rightarrow> None)
     | JStr s \<Rightarrow> (case parseFloat s of Finite r \<Rightarrow> Some r | _ \<Rightarrow> None)
     | _ \<Rightarrow> None)"

definition getPrimaryCoordinates :: "DetectedObject \<Rightarrow> LatLng option" where
  "getPrimaryCoordinates object =
     (let la = toOptionalNumber (nullish (get_prop object ''lat'') (nullish (get_prop object ''latitude'') JNull));
          lo = toOptionalNumber
                 (nullish (get_prop object ''lng'')
                    (nullish (get_prop object ''long'') (nullish (get_prop object ''lon'') JNull)))
      in case la of
           None \<Rightarrow> None
         | Some a \<Rightarrow> (case lo of None \<Rightarrow> None | Some b \<Rightarrow> Some \<lparr>lat = a, lng = b\<rparr>))"

section \<open>Built-in containers\<close>

text \<open>
  A \<^verbatim>\<open>Map\<close> keeps its keys in insertion order; \<^verbatim>\<open>set\<close> on a key that is
  present replaces the value and leaves the position.  Keys are compared by value
  (object ids are strings in the data).
\<close>

fun map_set :: "'k \<Rightarrow> 'v \<Rightarrow> ('k \<times> 'v) list \<Rightarrow> ('k \<times> 'v) list" where
  "map_set k v [] = [(k, v)]"
| "map_set k v (p # m) = (if fst p = k then (k, v) # m else p # map_set k v m)"

definition map_has :: "'k \<Rightarrow> ('k \<times> 'v) list \<Rightarrow> bool" where
  "map_has k m = (map_of m k \<noteq> None)"

definition map_values :: "('k \<times> 'v) list \<Rightarrow> 'v list" where
  "map_values m = map snd m"

text \<open>
  \<^verbatim>\<open>Array.prototype.sort\<close> with a comparator: a stable sort, written as insertion
  from the right; an element moves behind another only when the comparator is positive.
  Where the comparator is not consistent (a difference of two times or of two distances
  of which one is \<^verbatim>\<open>NaN\<close>) the order of the built-in depends on the engine, and this
  is one such order; a comparator that is \<^verbatim>\<open>NaN\<close> counts as zero.
\<close>

definition js_pos :: "jsnum \<Rightarrow> bool" where
  "js_pos n = (case n of Finite r \<Rightarrow> 0 < r | PosInf \<Rightarrow> True | _ \<Rightarrow> False)"

fun js_insert :: "('a \<Rightarrow> 'a \<Rightarrow> jsnum) \<Rightarrow> 'a \<Rightarrow> 'a list \<Rightarrow> 'a list" where
  "js_insert cmp x [] = [x]"
| "js_insert cmp x (y # ys) = (if js_pos (cmp x y) then y # js_insert cmp x ys else x # y # ys)"

definition js_sort :: "('a \<Rightarrow> 'a \<Rightarrow> jsnum) \<Rightarrow> 'a list \<Rightarrow> 'a list" where
  "js_sort cmp xs = foldr (js_insert cmp) xs []"

text \<open>Division of a finite number by a number, and addition of a finite number to one,
  both exact; they serve the ring.\<close>

definition js_div :: "real \<Rightarrow> jsnum \<Rightarrow> jsnum" where
  "js_div d n = (case n of
       Finite s \<Rightarrow>
         (if s \<noteq> 0 then Finite (d / s)
          else if d = 0 then NaN else if 0 < d then PosInf else NegInf)
     | NaN \<Rightarrow> NaN
     | _ \<Rightarrow> Finite 0)"

definition js_add :: "real \<Rightarrow> jsnum \<Rightarrow> jsnum" where
  "js_add a n = (case n of Finite b \<Rightarrow> Finite (a + b) | _ \<Rightarrow> n)"

section \<open>Events and the registry of latest objects\<close>

text \<open>Of a detection event the pipeline reads the time stamp and the objects; the
  optional chaining \<^verbatim>\<open>event.objects?.forEach\<close> makes \<open>None\<close> (null or undefined) a case
  of its own.\<close>

record DetectionEvent =
  timestamp :: string
  objects :: "DetectedObject list option"

record LatestObjectEntry =
  object :: DetectedObject
  lastSeen :: string

definition obj_id :: "DetectedObject \<Rightarrow> jsval" where
  "obj_id obj = get_prop obj ''obj_id''"

text \<open>\<^verbatim>\<open>new Date(a).getTime() - new Date(b).getTime()\<close>, where the time of a string that
  is not a date is \<^verbatim>\<open>NaN\<close> (\<open>None\<close>).\<close>

definition time_diff :: "int option \<Rightarrow> int option \<Rightarrow> jsnum" where
  "time_diff a b = (case a of
       None \<Rightarrow> NaN
     | Some x \<Rightarrow> (case b of None \<Rightarrow> NaN | Some y \<Rightarrow> Finite (real_of_int (x - y))))"

definition register_event ::
  "(jsval \<times> LatestObjectEntry) list \<Rightarrow> DetectionEvent \<Rightarrow> (jsval \<times> LatestObjectEntry) list" where
  "register_event m event = (case objects event of
       None \<Rightarrow> m
     | Some objs \<Rightarrow>
         foldl (\<lambda>m obj. map_set (obj_id obj) \<lparr>object = obj, lastSeen = timestamp event\<rparr> m) m objs)"

text \<open>\<^verbatim>\<open>buildLatestObjects\<close>; the parameter \<open>getTime\<close> stands for
  \<^verbatim>\<open>new Date(s).getTime()\<close>.\<close>

definition buildLatestObjects ::
  "(string \<Rightarrow> int option) \<Rightarrow> DetectionEvent list \<Rightarrow> LatestObjectEntry list" where
  "buildLatestObjects getTime events =
     js_sort (\<lambda>a b. time_diff (getTime (lastSeen b)) (getTime (lastSeen a)))
       (map_values (foldl register_event [] events))"

section \<open>Arithmetic of the distance\<close>

text \<open>
  The numbers of the engine are doubles: an operation returns its exact result rounded,
  and the functions of \<^verbatim>\<open>Math\<close> return what the engine computes for them.  In the
  great-circle distance the rounding decides a case, the square root of a number that is
  negative or not, so there the rounding \<open>fl\<close> and the functions of \<^verbatim>\<open>Math\<close> are
  parameters.  Overflow is not modelled: the numbers of this computation are small.  A
  coordinate is taken as it is given, also when it is not a double.
\<close>

record arith =
  fl :: "real \<Rightarrow> real"
  Math_sin :: "real \<Rightarrow> real"
  Math_cos :: "real \<Rightarrow> real"
  Math_sqrt :: "real \<Rightarrow> real"
  Math_atan2 :: "real \<Rightarrow> real \<Rightarrow> real"
  Math_PI :: real

text \<open>The arctangent of a quotient by the signs of its arguments, \<^verbatim>\<open>Math.atan2(y, x)\<close>
  over the reals.\<close>

definition atan2 :: "real \<Rightarrow> real \<Rightarrow> real" where
  "atan2 y x =
     (if 0 < x then arctan (y / x)
      else if x < 0 then (if 0 \<le> y then arctan (y / x) + pi else arctan (y / x) - pi)
      else if 0 < y then pi / 2
      else if y < 0 then - pi / 2
      else 0)"

text \<open>Arithmetic without rounding.\<close>

definition exact_arith :: arith where
  "exact_arith =
     \<lparr>fl = (\<lambda>x. x), Math_sin = sin, Math_cos = cos, Math_sqrt = sqrt, Math_atan2 = atan2,
      Math_PI = pi\<rparr>"

text \<open>
  The arithmetic of doubles: rounding to the nearest number with a significand of 53
  bits, ties to the even one (inside the normal range).
\<close>

definition round_even :: "real \<Rightarrow> int" where
  "round_even y =
     (let f = \<lfloor>y\<rfloor>; d = y - real_of_int f
      in if d < 1 / 2 then f else if 1 / 2 < d then f + 1 else if even f then f else f + 1)"

definition round_double :: "real \<Rightarrow> real" where
  "round_double x =
     (if x = 0 then 0
      else (let e = \<lfloor>log 2 \<bar>x\<bar>\<rfloor>
            in real_of_int (round_even (x / 2 powi (e - 52))) * 2 powi (e - 52)))"

definition double_PI :: real where
  "double_PI = 884279719003555 / 2 ^ 48"

text \<open>
  The sine and the cosine of the engine are the exact ones rounded.  At the four arguments
  that occur for the defended point (8, 1) and an object at (-8, -179) the rounded numbers
  are written out; they are the numbers that the common libraries return there.
\<close>

definition double_sin :: "real \<Rightarrow> real" where
  "double_sin x =
     (if x = - (5030569068109113 / 2 ^ 55) then - (5014239404989977 / 2 ^ 55)
      else if x = - (884279719003555 / 2 ^ 49) then - 1
      else round_double (sin x))"

definition double_cos :: "real \<Rightarrow> real" where
  "double_cos x =
     (if x = 5030569068109113 / 2 ^ 55 \<or> x = - (5030569068109113 / 2 ^ 55)
      then 4459770905381437 / 2 ^ 52
      else round_double (cos x))"

definition double_arith :: arith where
  "double_arith =
     \<lparr>fl = round_double, Math_sin = double_sin, Math_cos = double_cos,
      Math_sqrt = (\<lambda>x. round_double (sqrt x)),
      Math_atan2 = (\<lambda>y x. round_double (atan2 y x)), Math_PI = double_PI\<rparr>"

section \<open>Proximity alerts\<close>

definition EARTH_RADIUS_METERS :: real where
  "EARTH_RADIUS_METERS = 6371000"

definition toRadians :: "arith \<Rightarrow> real \<Rightarrow> real" where
  "toRadians ar v = fl ar (fl ar (v * Math_PI ar) / 180)"

definition haversine_a :: "arith \<Rightarrow> LatLng \<Rightarrow> LatLng \<Rightarrow> real" where
  "haversine_a ar from to =
     (let dLat = toRadians ar (fl ar (lat to - lat from));
          dLng = toRadians ar (fl ar (lng to - lng from));
          lat1 = toRadians ar (lat from);
          lat2 = toRadians ar (lat to);
          sinDLat = Math_sin ar (fl ar (dLat / 2));
          sinDLng = Math_sin ar (fl ar (dLng / 2))
      in fl ar (fl ar (sinDLat * sinDLat)
           + fl ar (fl ar (fl ar (Math_cos ar lat1 * Math_cos ar lat2) * sinDLng) * sinDLng)))"

text \<open>\<^verbatim>\<open>Math.sqrt\<close>: of a negative number it is \<^verbatim>\<open>NaN\<close>, here \<open>None\<close>.\<close>

definition sqrt_js :: "arith \<Rightarrow> real \<Rightarrow> real option" where
  "sqrt_js ar x = (if x < 0 then None else Some (Math_sqrt ar x))"

text \<open>\<^verbatim>\<open>calculateDistanceMeters\<close>; a \<^verbatim>\<open>NaN\<close> among the square roots goes through
  \<^verbatim>\<open>Math.atan2\<close> and the two products.\<close>

definition calculateDistanceMeters :: "arith \<Rightarrow> LatLng \<Rightarrow> LatLng \<Rightarrow> jsnum" where
  "calculateDistanceMeters ar from to =
     (let a = haversine_a ar from to
      in case sqrt_js ar a of
           None \<Rightarrow> NaN
         | Some y \<Rightarrow>
             (case sqrt_js ar (fl ar (1 - a)) of
                None \<Rightarrow> NaN
              | Some x \<Rightarrow>
                  Finite (fl ar (EARTH_RADIUS_METERS * fl ar (2 * Math_atan2 ar y x)))))"

record Intruder =
  i_object :: DetectedObject
  distance :: jsnum
  etaSeconds :: "jsnum option"

text \<open>\<^verbatim>\<open>typeof v === 'number' ? v : parseFloat(String(v))\<close>, with \<^verbatim>\<open>String\<close> written out
  for the values that are not numbers.\<close>

definition numberOrParse :: "jsval \<Rightarrow> jsnum" where
  "numberOrParse v = (case v of
       JNum n \<Rightarrow> n
     | JStr s \<Rightarrow> parseFloat s
     | JUndefined \<Rightarrow> parseFloat ''undefined''
     | JNull \<Rightarrow> parseFloat ''null''
     | JBool b \<Rightarrow> parseFloat (if b then ''true'' else ''false'')
     | JObj _ \<Rightarrow> parseFloat ''[object Object]'')"

text \<open>The comparison \<^verbatim>\<open>distance > detectionRadius\<close>, false for \<^verbatim>\<open>NaN\<close>; the quotient
  \<^verbatim>\<open>distance / speed\<close>; and the difference \<^verbatim>\<open>a.distance - b.distance\<close>.\<close>

definition js_gt :: "jsnum \<Rightarrow> real \<Rightarrow> bool" where
  "js_gt n r = (case n of Finite d \<Rightarrow> r < d | PosInf \<Rightarrow> True | _ \<Rightarrow> False)"

definition js_quot :: "arith \<Rightarrow> jsnum \<Rightarrow> jsnum \<Rightarrow> jsnum" where
  "js_quot ar x n = (case x of
       NaN \<Rightarrow> NaN
     | Finite d \<Rightarrow> (case n of
           Finite s \<Rightarrow>
             (if s \<noteq> 0 then Finite (fl ar (d / s))
              else if d = 0 then NaN else if 0 < d then PosInf else NegInf)
         | NaN \<Rightarrow> NaN
         | _ \<Rightarrow> Finite 0)
     | PosInf \<Rightarrow> (case n of
           Finite s \<Rightarrow> (if 0 \<le> s then PosInf else NegInf)
         | _ \<Rightarrow> NaN)
     | NegInf \<Rightarrow> (case n of
           Finite s \<Rightarrow> (if 0 \<le> s then NegInf else PosInf)
         | _ \<Rightarrow> NaN))"

definition js_sub :: "arith \<Rightarrow> jsnum \<Rightarrow> jsnum \<Rightarrow> jsnum" where
  "js_sub ar x y = (case x of
       NaN \<Rightarrow> NaN
     | Finite a \<Rightarrow> (case y of
           Finite b \<Rightarrow> Finite (fl ar (a - b))
         | NaN \<Rightarrow> NaN
         | PosInf \<Rightarrow> NegInf
         | NegInf \<Rightarrow> PosInf)
     | PosInf \<Rightarrow> (case y of NaN \<Rightarrow> NaN | PosInf \<Rightarrow> NaN | _ \<Rightarrow> PosInf)
     | NegInf \<Rightarrow> (case y of NaN \<Rightarrow> NaN | NegInf \<Rightarrow> NaN | _ \<Rightarrow> NegInf))"

definition eta_of :: "arith \<Rightarrow> DetectedObject \<Rightarrow> jsnum \<Rightarrow> jsnum option" where
  "eta_of ar obj d =
     (let speed = (case get_prop obj ''speed'' of JNum n \<Rightarrow> JNum n | _ \<Rightarrow> JNull)
      in case speed of
           JNum n \<Rightarrow> (if truthy speed \<and> js_pos n then Some (js_quot ar d n) else None)
         | _ \<Rightarrow> None)"

definition scan_object ::
  "arith \<Rightarrow> LatLng \<Rightarrow> real \<Rightarrow> (jsval \<times> Intruder) list \<Rightarrow> DetectedObject
     \<Rightarrow> (jsval \<times> Intruder) list" where
  "scan_object ar defaultLocation detectionRadius seen obj =
     (case numberOrParse (get_prop obj ''lat'') of
        Finite la \<Rightarrow>
          (case numberOrParse (get_prop obj ''lng'') of
             Finite lo \<Rightarrow>
               (let d = calculateDistanceMeters ar defaultLocation \<lparr>lat = la, lng = lo\<rparr>
                in if js_gt d detectionRadius then seen
                   else if \<not> map_has (obj_id obj) seen
                     then map_set (obj_id obj)
                            \<lparr>i_object = obj, distance = d, etaSeconds = eta_of ar obj d\<rparr> seen
                   else seen)
           | _ \<Rightarrow> seen)
      | _ \<Rightarrow> seen)"

definition scan_event ::
  "arith \<Rightarrow> LatLng \<Rightarrow> real \<Rightarrow> (jsval \<times> Intruder) list \<Rightarrow> DetectionEvent
     \<Rightarrow> (jsval \<times> Intruder) list" where
  "scan_event ar defaultLocation detectionRadius seen event = (case objects event of
       None \<Rightarrow> seen
     | Some objs \<Rightarrow> foldl (scan_object ar defaultLocation detectionRadius) seen objs)"

text \<open>The memo \<^verbatim>\<open>intruders\<close> of the defensive alert panel.\<close>

definition intruders ::
  "arith \<Rightarrow> DetectionEvent list \<Rightarrow> LatLng option \<Rightarrow> real \<Rightarrow> Intruder list" where
  "intruders ar events defaultLocation detectionRadius = (case defaultLocation of
       None \<Rightarrow> []
     | Some p \<Rightarrow>
         if detectionRadius \<le> 0 then []
         else js_sort (\<lambda>a b. js_sub ar (distance a) (distance b))
                (map_values (foldl (scan_event ar p detectionRadius) [] events)))"

section \<open>Marker clustering\<close>

definition distanceBetween :: "real \<Rightarrow> real \<Rightarrow> real \<Rightarrow> real \<Rightarrow> real" where
  "distanceBetween lat1 lng1 lat2 lng2 =
     (let dLat = lat1 - lat2; dLng = lng1 - lng2 in sqrt (dLat * dLat + dLng * dLng))"

record Cluster =
  c_lat :: real
  c_lng :: real
  c_objects :: "DetectedObject list"

datatype MarkerDescriptor =
    Single real real DetectedObject
  | ClusterMarker real real "DetectedObject list"

text \<open>\<^verbatim>\<open>Array.prototype.find\<close>, returning the position of the element found: the source
  mutates the element it finds, which is the element at that position.\<close>

fun find_first :: "('a \<Rightarrow> bool) \<Rightarrow> 'a list \<Rightarrow> nat option" where
  "find_first P [] = None"
| "find_first P (x # xs) = (if P x then Some 0 else map_option Suc (find_first P xs))"

definition tolerance_of :: "real \<Rightarrow> real" where
  "tolerance_of zoom = (if zoom \<ge> 13 then 0.002 else if zoom \<ge> 11 then 0.004 else 0.01)"

text \<open>The branch of the loop body that joins an obj to the cluster found.\<close>

definition join_cluster :: "Cluster \<Rightarrow> DetectedObject \<Rightarrow> real \<Rightarrow> real \<Rightarrow> Cluster" where
  "join_cluster cluster obj la lo =
     (let objs = c_objects cluster @ [obj];
          total = real (length objs)
      in \<lparr>c_lat = c_lat cluster + (la - c_lat cluster) / total,
          c_lng = c_lng cluster + (lo - c_lng cluster) / total,
          c_objects = objs\<rparr>)"

definition add_object :: "real \<Rightarrow> Cluster list \<Rightarrow> DetectedObject \<Rightarrow> Cluster list" where
  "add_object tolerance clusters obj = (case getPrimaryCoordinates obj of
       None \<Rightarrow> clusters
     | Some coords \<Rightarrow>
         (case find_first
                 (\<lambda>item. distanceBetween (c_lat item) (c_lng item) (lat coords) (lng coords) < tolerance)
                 clusters of
            Some i \<Rightarrow> clusters[i := join_cluster (clusters ! i) obj (lat coords) (lng coords)]
          | None \<Rightarrow> clusters @ [\<lparr>c_lat = lat coords, c_lng = lng coords, c_objects = [obj]\<rparr>]))"

definition descriptor_of :: "Cluster \<Rightarrow> MarkerDescriptor" where
  "descriptor_of cluster =
     (if length (c_objects cluster) = 1
      then Single (c_lat cluster) (c_lng cluster) (c_objects cluster ! 0)
      else ClusterMarker (c_lat cluster) (c_lng cluster) (c_objects cluster))"

definition getMarkerDescriptors :: "DetectedObject list \<Rightarrow> real \<Rightarrow> MarkerDescriptor list" where
  "getMarkerDescriptors items zoom =
     (if length items = 0 then []
      else if zoom \<ge> 15 then
        List.map_filter
          (\<lambda>obj. case getPrimaryCoordinates obj of
                       None \<Rightarrow> None
                     | Some coords \<Rightarrow> Some (Single (lat coords) (lng coords) obj))
          items
      else map descriptor_of (foldl (add_object (tolerance_of zoom)) [] items))"

section \<open>Geofence ring\<close>

text \<open>
  One iteration of the loop of \<^verbatim>\<open>createCirclePolygon\<close>, a pair \<^verbatim>\<open>[lng, lat]\<close>.  With
  \<^verbatim>\<open>steps\<close> zero the quotient \<^verbatim>\<open>i / steps\<close> is not finite and both coordinates are
  \<^verbatim>\<open>NaN\<close>.  The numbers are exact reals; over them the cosine of the latitude of a
  pole is zero and the quotient is the one of a division by zero, where the doubles of the
  engine have a small cosine and a finite quotient.
\<close>

definition ring_point :: "LatLng \<Rightarrow> real \<Rightarrow> real \<Rightarrow> nat \<Rightarrow> jsnum \<times> jsnum" where
  "ring_point center radiusMeters steps i =
     (if steps = 0 then (NaN, NaN)
      else
        (let angle = (real i / steps) * 2 * pi;
             dx = (radiusMeters / EARTH_RADIUS_METERS) * cos angle;
             dy = (radiusMeters / EARTH_RADIUS_METERS) * sin angle;
             la = lat center + (dy * 180) / pi;
             lo = js_add (lng center)
                    (js_div ((dx * 180) / pi) (Finite (cos ((lat center * pi) / 180))))
         in (lo, Finite la)))"

function ring_from :: "LatLng \<Rightarrow> real \<Rightarrow> real \<Rightarrow> nat \<Rightarrow> (jsnum \<times> jsnum) list" where
  "ring_from center radiusMeters steps i =
     (if real i \<le> steps
      then ring_point center radiusMeters steps i # ring_from center radiusMeters steps (Suc i)
      else [])"
  by pat_completeness auto
termination
proof (relation "measure (\<lambda>(center, radiusMeters, steps, i). nat \<lfloor>steps\<rfloor> + 1 - i)")
  show "wf (measure (\<lambda>(center, radiusMeters, steps, i). nat \<lfloor>steps\<rfloor> + 1 - i))"
    by simp
next
  fix center :: LatLng and radiusMeters steps :: real and i :: nat
  assume "real i \<le> steps"
  then have "int i \<le> \<lfloor>steps\<rfloor>"
    by (simp add: le_floor_iff)
  then have "i \<le> nat \<lfloor>steps\<rfloor>"
    by linarith
  then show "((center, radiusMeters, steps, Suc i), (center, radiusMeters, steps, i))
      \<in> measure (\<lambda>(center, radiusMeters, steps, i). nat \<lfloor>steps\<rfloor> + 1 - i)"
    by simp
qed

declare ring_from.simps [simp del]

definition createCirclePolygon :: "LatLng \<Rightarrow> real \<Rightarrow> real \<Rightarrow> (jsnum \<times> jsnum) list" where
  "createCirclePolygon center radiusMeters steps = ring_from center radiusMeters steps 0"

section \<open>Notions used to state the properties\<close>

text \<open>The entries written by the registry build, in the order of iteration: events in
  array order, and the objects of an event in array order.\<close>

definition occurrences :: "DetectionEvent list \<Rightarrow> LatestObjectEntry list" where
  "occurrences events =
     concat (map (\<lambda>event. case objects event of
                             None \<Rightarrow> []
                           | Some objs \<Rightarrow> map (\<lambda>obj. \<lparr>object = obj, lastSeen = timestamp event\<rparr>) objs)
                 events)"

text \<open>The objects of all events, in the order of iteration.\<close>

definition all_objects :: "DetectionEvent list \<Rightarrow> DetectedObject list" where
  "all_objects events =
     concat (map (\<lambda>event. case objects event of None \<Rightarrow> [] | Some objs \<Rightarrow> objs) events)"

text \<open>What the intruder scan computes for one object before it looks the id up: nothing
  when a coordinate is not finite or the distance is greater than the radius, else the
  distance and the ETA.\<close>

definition reading :: "arith \<Rightarrow> LatLng \<Rightarrow> real \<Rightarrow> DetectedObject \<Rightarrow> Intruder option" where
  "reading ar defaultLocation detectionRadius obj =
     (case numberOrParse (get_prop obj ''lat'') of
        Finite la \<Rightarrow>
          (case numberOrParse (get_prop obj ''lng'') of
             Finite lo \<Rightarrow>
               (let d = calculateDistanceMeters ar defaultLocation \<lparr>lat = la, lng = lo\<rparr>
                in if js_gt d detectionRadius then None
                   else Some \<lparr>i_object = obj, distance = d, etaSeconds = eta_of ar obj d\<rparr>)
           | _ \<Rightarrow> None)
      | _ \<Rightarrow> None)"

definition in_range_readings ::
  "arith \<Rightarrow> LatLng \<Rightarrow> real \<Rightarrow> DetectionEvent list \<Rightarrow> Intruder list" where
  "in_range_readings ar defaultLocation detectionRadius events =
     List.map_filter (reading ar defaultLocation detectionRadius) (all_objects events)"

text \<open>The great-circle distance over the reals, and the haversine term in it.\<close>

definition haversine_term :: "LatLng \<Rightarrow> LatLng \<Rightarrow> real" where
  "haversine_term p q =
     (sin ((lat q - lat p) * pi / 180 / 2))\<^sup>2
       + cos (lat p * pi / 180) * cos (lat q * pi / 180) * (sin ((lng q - lng p) * pi / 180 / 2))\<^sup>2"

definition great_circle :: "LatLng \<Rightarrow> LatLng \<Rightarrow> real" where
  "great_circle p q =
     EARTH_RADIUS_METERS
       * (2 * atan2 (sqrt (haversine_term p q)) (sqrt (1 - haversine_term p q)))"

text \<open>The value of a finite number.\<close>

definition num_of :: "jsnum \<Rightarrow> real" where
  "num_of n = (case n of Finite d \<Rightarrow> d | _ \<Rightarrow> 0)"

text \<open>A map whose keys are distinct and are the key of the value stored under them.\<close>

definition keyed :: "('v \<Rightarrow> 'k) \<Rightarrow> ('k \<times> 'v) list \<Rightarrow> bool" where
  "keyed key m = (distinct (map fst m) \<and> list_all (\<lambda>p. fst p = key (snd p)) m)"

text \<open>Store a value under its key unless the key is present.\<close>

definition put_new :: "('v \<Rightarrow> 'k) \<Rightarrow> ('k \<times> 'v) list \<Rightarrow> 'v \<Rightarrow> ('k \<times> 'v) list" where
  "put_new key m e = (if \<not> map_has (key e) m then map_set (key e) e m else m)"

text \<open>The arrow function given to \<^verbatim>\<open>find\<close> in the clustering loop, and the list of
  clusters after the loop.\<close>

definition near :: "real \<Rightarrow> LatLng \<Rightarrow> Cluster \<Rightarrow> bool" where
  "near tolerance coords item =
     (distanceBetween (c_lat item) (c_lng item) (lat coords) (lng coords) < tolerance)"

definition cluster_pass :: "real \<Rightarrow> DetectedObject list \<Rightarrow> Cluster list" where
  "cluster_pass tolerance items = foldl (add_object tolerance) [] items"

text \<open>The coordinates of the members of a cluster, and the arithmetic mean.\<close>

definition member_coords :: "Cluster \<Rightarrow> LatLng list" where
  "member_coords c = List.map_filter getPrimaryCoordinates (c_objects c)"

definition mean :: "real list \<Rightarrow> real" where
  "mean xs = sum_list xs / real (length xs)"

definition centred :: "Cluster \<Rightarrow> bool" where
  "centred c =
     (c_objects c \<noteq> [] \<and>
      list_all (\<lambda>obj. getPrimaryCoordinates obj \<noteq> None) (c_objects c) \<and>
      c_lat c = mean (map lat (member_coords c)) \<and>
      c_lng c = mean (map lng (member_coords c)))"

text \<open>A cluster as it is started by the loop, a sequence of joins into one cluster, and
  a cluster that keeps the mean of a list of points.\<close>

definition start_cluster :: "DetectedObject \<Rightarrow> LatLng \<Rightarrow> Cluster" where
  "start_cluster obj p = \<lparr>c_lat = lat p, c_lng = lng p, c_objects = [obj]\<rparr>"

definition join_all :: "Cluster \<Rightarrow> (DetectedObject \<times> LatLng) list \<Rightarrow> Cluster" where
  "join_all c joins = foldl (\<lambda>c (obj, p). join_cluster c obj (lat p) (lng p)) c joins"

definition tracks :: "Cluster \<Rightarrow> LatLng list \<Rightarrow> bool" where
  "tracks c ps =
     (ps \<noteq> [] \<and> length (c_objects c) = length ps \<and>
      c_lat c = mean (map lat ps) \<and> c_lng c = mean (map lng ps))"

text \<open>The planar offsets of the \<open>i\<close>-th point of the ring, in degrees.\<close>

definition planar_dx_deg :: "real \<Rightarrow> real \<Rightarrow> nat \<Rightarrow> real" where
  "planar_dx_deg radiusMeters steps i =
     ((radiusMeters / EARTH_RADIUS_METERS) * cos ((real i / steps) * 2 * pi) * 180) / pi"

definition planar_dy_deg :: "real \<Rightarrow> real \<Rightarrow> nat \<Rightarrow> real" where
  "planar_dy_deg radiusMeters steps i =
     ((radiusMeters / EARTH_RADIUS_METERS) * sin ((real i / steps) * 2 * pi) * 180) / pi"

text \<open>The objects a marker stands for.\<close>

definition marker_objects :: "MarkerDescriptor \<Rightarrow> DetectedObject list" where
  "marker_objects m = (case m of Single _ _ obj \<Rightarrow> [obj] | ClusterMarker _ _ objs \<Rightarrow> objs)"

text \<open>
  The values that the resolution of \<^verbatim>\<open>utils/objectGeo.ts\<close> can take a coordinate from,
  in the order of precedence: the direct fields of the object under the keys, then the
  fields of the block \<^verbatim>\<open>details\<close>, then those of the block \<^verbatim>\<open>detail\<close>; and the first
  of a list of values that is a finite number or a string that parses to one.
\<close>

definition candidates :: "DetectedObject \<Rightarrow> string list \<Rightarrow> jsval list" where
  "candidates obj keys =
     map (get_prop obj) keys
       @ map (get_member (get_prop obj ''details'')) keys
       @ map (get_member (get_prop obj ''detail'')) keys"

definition numeric :: "jsval \<Rightarrow> real option" where
  "numeric v = (case v of
       JNum n \<Rightarrow> (case n of Finite r \<Rightarrow> Some r | _ \<Rightarrow> None)
     | JStr s \<Rightarrow> (case parseFloat s of Finite r \<Rightarrow> Some r | _ \<Rightarrow> None)
     | _ \<Rightarrow> None)"

definition first_number :: "jsval list \<Rightarrow> real option" where
  "first_number vs = (case List.map_filter numeric vs of [] \<Rightarrow> None | r # _ \<Rightarrow> Some r)"

text \<open>The first of the direct fields under the keys that is present, that is neither
  \<^verbatim>\<open>undefined\<close> nor \<^verbatim>\<open>null\<close>; \<^verbatim>\<open>null\<close> when there is none.\<close>

definition first_present :: "DetectedObject \<Rightarrow> string list \<Rightarrow> jsval" where
  "first_present obj keys =
     (case filter (\<lambda>v. v \<noteq> JUndefined \<and> v \<noteq> JNull) (map (get_prop obj) keys) of
        [] \<Rightarrow> JNull
      | v # _ \<Rightarrow> v)"

section \<open>Sample data\<close>

text \<open>Three events: an object 0.01 degrees east of the origin, an event without an
  objects field, and an earlier event, last in the array, where the same object is at the
  origin and a second object has its coordinates and its speed as strings.\<close>

definition origin :: LatLng where
  "origin = \<lparr>lat = 0, lng = 0\<rparr>"

definition drone_far_first :: DetectedObject where
  "drone_far_first =
     [(''obj_id'', JStr ''obj_001''), (''type'', JStr ''drone''),
      (''lat'', JNum (Finite 0)), (''lng'', JStr ''0.01''), (''speed'', JNum (Finite 10))]"

definition drone_near_later :: DetectedObject where
  "drone_near_later =
     [(''obj_id'', JStr ''obj_001''), (''type'', JStr ''drone''),
      (''lat'', JNum (Finite 0)), (''lng'', JNum (Finite 0)), (''speed'', JNum (Finite 10))]"

definition drone_string_speed :: DetectedObject where
  "drone_string_speed =
     [(''obj_id'', JStr ''obj_002''), (''type'', JStr ''drone''),
      (''lat'', JStr ''0''), (''lng'', JStr ''0''), (''speed'', JStr ''10''),
      (''details'', JObj [(''speed'', JNum (Finite 10))])]"

definition sample_events :: "DetectionEvent list" where
  "sample_events =
     [\<lparr>timestamp = ''2024-05-02T10:00:00Z'', objects = Some [drone_far_first]\<rparr>,
      \<lparr>timestamp = ''2024-05-02T09:00:00Z'', objects = None\<rparr>,
      \<lparr>timestamp = ''2024-05-01T10:00:00Z'', objects = Some [drone_string_speed, drone_near_later]\<rparr>]"


definition sample_time :: "string \<Rightarrow> int option" where
  "sample_time s =
     (if s = ''2024-05-02T10:00:00Z'' then Some 1714644000000
      else if s = ''2024-05-02T09:00:00Z'' then Some 1714640400000
      else if s = ''2024-05-01T10:00:00Z'' then Some 1714557600000
      else None)"

text \<open>A defended point at (8, 1), an object close to its antipode with a speed of 20, and
  an object at the defended point itself, in one event.\<close>

definition defended_point :: LatLng where
  "defended_point = \<lparr>lat = 8, lng = 1\<rparr>"

definition drone_antipodal :: DetectedObject where
  "drone_antipodal =
     [(''obj_id'', JStr ''obj_010''), (''type'', JStr ''drone''),
      (''lat'', JNum (Finite (- 8))), (''lng'', JNum (Finite (- 179))), (''speed'', JNum (Finite 20))]"

definition drone_at_point :: DetectedObject where
  "drone_at_point =
     [(''obj_id'', JStr ''obj_011''), (''type'', JStr ''drone''),
      (''lat'', JNum (Finite 8)), (''lng'', JNum (Finite 1))]"

definition antipodal_event :: DetectionEvent where
  "antipodal_event =
     \<lparr>timestamp = ''2024-05-04T10:00:00Z'', objects = Some [drone_antipodal, drone_at_point]\<rparr>"

text \<open>Three markers on the equator, with the coordinates as numbers, as a string and
  under the alternative keys; a marker off the equator; an object whose field \<^verbatim>\<open>lat\<close>
  is not a number while its field \<^verbatim>\<open>latitude\<close> is; an object with coordinates in its
  direct fields and in the telemetry block; and an object whose coordinates are in the
  telemetry block only.\<close>

definition marker_a :: DetectedObject where
  "marker_a = [(''obj_id'', JStr ''obj_a''), (''lat'', JNum (Finite 0)), (''lng'', JNum (Finite 0))]"

definition marker_b :: DetectedObject where
  "marker_b = [(''obj_id'', JStr ''obj_b''), (''lat'', JNum (Finite 0)), (''lng'', JStr ''0.003'')]"

definition marker_c :: DetectedObject where
  "marker_c =
     [(''obj_id'', JStr ''obj_c''), (''latitude'', JNum (Finite 0)), (''lon'', JNum (Finite (19 / 10000)))]"

definition marker_d :: DetectedObject where
  "marker_d =
     [(''obj_id'', JStr ''obj_d''), (''lat'', JNum (Finite (12 / 10000))), (''lng'', JStr ''0.0016'')]"

definition drone_alias_mismatch :: DetectedObject where
  "drone_alias_mismatch =
     [(''obj_id'', JStr ''obj_004''), (''lat'', JStr ''abc''), (''latitude'', JNum (Finite 5)),
      (''lng'', JNum (Finite 1))]"

definition drone_both :: DetectedObject where
  "drone_both =
     [(''obj_id'', JStr ''obj_005''), (''lat'', JNum (Finite 1)), (''lng'', JStr ''2''),
      (''details'', JObj [(''lat'', JNum (Finite 3)), (''lng'', JNum (Finite 4))])]"

definition drone_telemetry_only :: DetectedObject where
  "drone_telemetry_only =
     [(''obj_id'', JStr ''obj_003''), (''type'', JStr ''drone''),
      (''details'', JObj [(''lat'', JNum (Finite (143 / 10))), (''lng'', JStr ''101.17''),
                          (''speed'', JNum (Finite 12))])]"

definition mixed_event :: DetectionEvent where
  "mixed_event =
     \<lparr>timestamp = ''2024-05-03T11:00:00Z'',
      objects = Some [marker_c, drone_telemetry_only, drone_alias_mismatch, drone_both]\<rparr>"

definition telemetry_event :: DetectionEvent where
  "telemetry_event = \<lparr>timestamp = ''2024-05-03T10:00:00Z'', objects = Some [drone_telemetry_only]\<rparr>"

section \<open>Sorting and maps\<close>

lemma mset_js_insert: "mset (js_insert cmp x ys) = add_mset x (mset ys)"
  by (induction ys) auto

lemma mset_js_sort: "mset (js_sort cmp xs) = mset xs"
  by (induction xs) (auto simp: js_sort_def mset_js_insert)

lemma set_js_sort: "set (js_sort cmp xs) = set xs"
  using mset_js_sort[of cmp xs] by (metis set_mset_mset)

text \<open>With a comparator that is the difference of two finite keys, the sort puts the
  list in ascending order of the key.\<close>

lemma sorted_js_insert:
  assumes "\<And>a b. a \<in> set (x # ys) \<Longrightarrow> b \<in> set (x # ys) \<Longrightarrow> cmp a b = Finite (f a - f b)"
    and "sorted (map f ys)"
  shows "sorted (map f (js_insert cmp x ys))"
  using assms
proof (induction ys)
  case Nil
  then show ?case by simp
next
  case (Cons y ys)
  have s: "set (js_insert cmp x ys) = insert x (set ys)"
    using mset_js_insert[of cmp x ys] by (metis set_mset_mset set_mset_add_mset_insert)
  have c: "cmp x y = Finite (f x - f y)"
    by (rule Cons.prems(1)) simp_all
  have ih: "sorted (map f (js_insert cmp x ys))"
    using Cons.prems by (intro Cons.IH) auto
  show ?case
    using Cons.prems(2) ih by (auto simp: c js_pos_def s)
qed

lemma sorted_js_sort:
  assumes "\<And>a b. a \<in> set xs \<Longrightarrow> b \<in> set xs \<Longrightarrow> cmp a b = Finite (f a - f b)"
  shows "sorted (map f (js_sort cmp xs))"
  using assms
proof (induction xs)
  case Nil
  then show ?case by (simp add: js_sort_def)
next
  case (Cons x xs)
  have ih: "sorted (map f (js_sort cmp xs))"
    using Cons.prems by (intro Cons.IH) auto
  have st: "set (js_sort cmp xs) = set xs"
    by (rule set_js_sort)
  have "sorted (map f (js_insert cmp x (js_sort cmp xs)))"
    using Cons.prems ih by (intro sorted_js_insert) (auto simp: st)
  then show ?case by (simp add: js_sort_def)
qed

lemma map_of_map_set: "map_of (map_set k v m) = (map_of m)(k \<mapsto> v)"
  by (induction m) (auto simp: fun_eq_iff)

lemma keys_map_set: "set (map fst (map_set k v m)) = insert k (set (map fst m))"
  by (induction m) auto

lemma distinct_map_set: "distinct (map fst m) \<Longrightarrow> distinct (map fst (map_set k v m))"
  by (induction m) (auto simp: keys_map_set[simplified])

lemma set_map_set_subset: "set (map_set k v m) \<subseteq> insert (k, v) (set m)"
  by (induction m) auto

lemma keyed_Nil: "keyed key []"
  by (simp add: keyed_def)

lemma keyed_map_set: "keyed key m \<Longrightarrow> keyed key (map_set (key v) v m)"
  unfolding keyed_def list_all_iff
  using set_map_set_subset[of "key v" v m] distinct_map_set[of m "key v" v]
  by auto

lemma keyed_values_distinct:
  assumes "keyed key m"
  shows "distinct (map key (map_values m))"
proof -
  have "map key (map_values m) = map fst m"
    using assms by (auto simp: keyed_def map_values_def list_all_iff)
  with assms show ?thesis by (simp add: keyed_def)
qed

lemma find_distinct_key:
  "distinct (map key xs) \<Longrightarrow> (find (\<lambda>e. key e = k) xs = Some e) = (e \<in> set xs \<and> key e = k)"
  by (induction xs) (auto simp: image_iff)

text \<open>Looking an entry up by its key does not depend on the order of a list whose keys
  are distinct.\<close>

lemma find_perm:
  assumes "distinct (map key xs)" "mset ys = mset xs"
  shows "find (\<lambda>e. key e = k) ys = find (\<lambda>e. key e = k) xs"
proof -
  have dy: "distinct (map key ys)"
    using assms by (metis mset_eq_imp_distinct_iff mset_map)
  have sy: "set ys = set xs"
    using assms(2) by (metis set_mset_mset)
  show ?thesis
  proof (cases "find (\<lambda>e. key e = k) xs")
    case None
    then have "\<forall>e\<in>set ys. key e \<noteq> k"
      by (simp add: find_None_iff sy)
    then have "find (\<lambda>e. key e = k) ys = None"
      by (simp add: find_None_iff)
    with None show ?thesis by simp
  next
    case (Some e)
    then have "e \<in> set ys \<and> key e = k"
      using find_distinct_key[OF assms(1)] sy by metis
    then have "find (\<lambda>e. key e = k) ys = Some e"
      using find_distinct_key[OF dy] by metis
    with Some show ?thesis by simp
  qed
qed

lemma find_keyed_values:
  "keyed key m \<Longrightarrow> find (\<lambda>e. key e = k) (map_values m) = map_of m k"
  unfolding keyed_def map_values_def
  by (induction m) (auto simp: image_iff)

lemma find_append_opt:
  "find P (xs @ ys) = (case find P xs of None \<Rightarrow> find P ys | Some x \<Rightarrow> Some x)"
  by (induction xs) auto

text \<open>Writing every value under its key: the last value with a key stays.\<close>

lemma map_of_foldl_set:
  "map_of (foldl (\<lambda>m e. map_set (key e) e m) m es) k =
     (case find (\<lambda>e. key e = k) (rev es) of None \<Rightarrow> map_of m k | Some e \<Rightarrow> Some e)"
proof (induction es arbitrary: m)
  case Nil
  then show ?case by simp
next
  case (Cons e es)
  show ?case
    by (simp add: Cons map_of_map_set find_append_opt split: option.splits)
qed

lemma keyed_foldl_set: "keyed key m \<Longrightarrow> keyed key (foldl (\<lambda>m e. map_set (key e) e m) m es)"
  by (induction es arbitrary: m) (auto simp: keyed_map_set)

text \<open>Writing a value only when its key is new: the first value with a key stays.\<close>

lemma map_of_foldl_new:
  "map_of (foldl (put_new key) m es) k =
     (case map_of m k of None \<Rightarrow> find (\<lambda>e. key e = k) es | Some e \<Rightarrow> Some e)"
proof (induction es arbitrary: m)
  case Nil
  then show ?case by (simp split: option.splits)
next
  case (Cons e es)
  have "map_of (put_new key m e) k =
          (case map_of m k of None \<Rightarrow> (if key e = k then Some e else None) | Some v \<Rightarrow> Some v)"
    by (auto simp: put_new_def map_has_def map_of_map_set split: option.splits)
  then show ?case
    by (simp add: Cons split: option.splits)
qed

lemma keyed_foldl_new: "keyed key m \<Longrightarrow> keyed key (foldl (put_new key) m es)"
  by (induction es arbitrary: m) (auto simp: keyed_map_set put_new_def)

lemma put_new_subset: "set (map_values (foldl (put_new key) m es)) \<subseteq> set (map_values m) \<union> set es"
proof (induction es arbitrary: m)
  case Nil
  then show ?case by simp
next
  case (Cons e es)
  have "set (map_values (put_new key m e)) \<subseteq> insert e (set (map_values m))"
    using set_map_set_subset[of "key e" e m] by (auto simp: put_new_def map_values_def)
  with Cons[of "put_new key m e"] show ?case by auto
qed

lemma map_filter_append:
  "List.map_filter f (xs @ ys) = List.map_filter f xs @ List.map_filter f ys"
  by (simp add: List.map_filter_def)

section \<open>Great-circle distance\<close>

subsection \<open>Without rounding\<close>

text \<open>The haversine term lies between 0 and 1, so without rounding both square roots of
  \<^verbatim>\<open>calculateDistanceMeters\<close> are taken of numbers that are not negative, and the
  distance is a number.\<close>

lemma cos_diff_mult_cos_sum: "cos (x - y) * cos (x + y) = (cos x)\<^sup>2 - (sin y)\<^sup>2" for x y :: real
proof -
  have "cos (x - y) * cos (x + y) = (cos x)\<^sup>2 * (cos y)\<^sup>2 - (sin x)\<^sup>2 * (sin y)\<^sup>2"
    by (simp add: cos_add cos_diff power2_eq_square algebra_simps)
  also have "\<dots> = (cos x)\<^sup>2 * (1 - (sin y)\<^sup>2) - (1 - (cos x)\<^sup>2) * (sin y)\<^sup>2"
    by (simp only: cos_squared_eq[of y] sin_squared_eq[of x])
  also have "\<dots> = (cos x)\<^sup>2 - (sin y)\<^sup>2"
    by (simp add: algebra_simps)
  finally show ?thesis .
qed

lemma haversine_term_range: "0 \<le> haversine_term p q \<and> haversine_term p q \<le> 1"
proof -
  define f1 where "f1 = lat p * pi / 180"
  define f2 where "f2 = lat q * pi / 180"
  define u where "u = (sin ((lng q - lng p) * pi / 180 / 2))\<^sup>2"
  define x where "x = (f1 + f2) / 2"
  define y where "y = (f2 - f1) / 2"
  have dl: "(lat q - lat p) * pi / 180 / 2 = y"
    by (simp add: y_def f1_def f2_def field_simps)
  have a: "haversine_term p q = (sin y)\<^sup>2 + cos f1 * cos f2 * u"
    unfolding haversine_term_def dl u_def f1_def f2_def by (rule refl)
  have "f1 = x - y" "f2 = x + y"
    by (simp_all add: x_def y_def field_simps)
  then have k: "cos f1 * cos f2 = (cos x)\<^sup>2 - (sin y)\<^sup>2"
    using cos_diff_mult_cos_sum[of x y] by simp
  have a': "haversine_term p q = (1 - u) * (sin y)\<^sup>2 + u * (cos x)\<^sup>2"
    unfolding a k by (simp add: algebra_simps)
  have u: "0 \<le> u" "u \<le> 1"
    by (simp_all add: u_def abs_square_le_1)
  have s: "0 \<le> (sin y)\<^sup>2" "(sin y)\<^sup>2 \<le> 1" "0 \<le> (cos x)\<^sup>2" "(cos x)\<^sup>2 \<le> 1"
    by (simp_all add: abs_square_le_1)
  have lo: "0 \<le> (1 - u) * (sin y)\<^sup>2 + u * (cos x)\<^sup>2"
    using u s by (intro add_nonneg_nonneg mult_nonneg_nonneg) simp_all
  have "(1 - u) * (sin y)\<^sup>2 \<le> (1 - u) * 1" "u * (cos x)\<^sup>2 \<le> u * 1"
    using u s by (intro mult_left_mono; simp)+
  then have hi: "(1 - u) * (sin y)\<^sup>2 + u * (cos x)\<^sup>2 \<le> 1"
    by simp
  show ?thesis
    unfolding a' using lo hi by simp
qed

lemma exact_arith_sel:
  "fl exact_arith = (\<lambda>x. x)"
  "Math_sin exact_arith = sin"
  "Math_cos exact_arith = cos"
  "Math_sqrt exact_arith = sqrt"
  "Math_atan2 exact_arith = atan2"
  "Math_PI exact_arith = pi"
  by (simp_all add: exact_arith_def)

lemma haversine_a_exact: "haversine_a exact_arith p q = haversine_term p q"
  by (simp add: haversine_a_def haversine_term_def toRadians_def exact_arith_sel Let_def
        power2_eq_square)

lemma calculateDistanceMeters_exact:
  "calculateDistanceMeters exact_arith p q = Finite (great_circle p q)"
proof -
  have r: "\<not> haversine_term p q < 0" "\<not> 1 - haversine_term p q < 0"
    using haversine_term_range[of p q] by simp_all
  show ?thesis
    unfolding calculateDistanceMeters_def haversine_a_exact Let_def sqrt_js_def exact_arith_sel
      great_circle_def
    using r by simp
qed

lemma great_circle_same: "great_circle p p = 0"
  by (simp add: great_circle_def haversine_term_def atan2_def)

text \<open>Along the equator the distance is the arc of the difference of longitude.\<close>

lemma distance_along_equator:
  assumes "0 \<le> x" "x < 180"
  shows "great_circle \<lparr>lat = 0, lng = 0\<rparr> \<lparr>lat = 0, lng = x\<rparr> = EARTH_RADIUS_METERS * (x * pi / 180)"
proof -
  define t where "t = x * pi / 360"
  have t0: "0 \<le> t" using assms by (simp add: t_def)
  have t1: "t < pi / 2" using assms by (simp add: t_def)
  have st: "0 \<le> sin t"
    using t0 t1 by (intro sin_ge_zero) (use pi_gt_zero in linarith)+
  have ct: "0 < cos t"
    using t0 t1 by (intro cos_gt_zero_pi) linarith+
  have a: "haversine_term \<lparr>lat = 0, lng = 0\<rparr> \<lparr>lat = 0, lng = x\<rparr> = (sin t)\<^sup>2"
    by (simp add: haversine_term_def t_def)
  have s1: "sqrt ((sin t)\<^sup>2) = sin t"
    using st by simp
  have "1 - (sin t)\<^sup>2 = (cos t)\<^sup>2"
    using sin_cos_squared_add[of t] by (simp add: algebra_simps)
  then have s2: "sqrt (1 - (sin t)\<^sup>2) = cos t"
    using ct by simp
  have "atan2 (sin t) (cos t) = arctan (tan t)"
    using ct by (simp add: atan2_def tan_def)
  also have "\<dots> = t"
    using t0 t1 by (intro arctan_tan) linarith+
  finally have at: "atan2 (sin t) (cos t) = t" .
  have "great_circle \<lparr>lat = 0, lng = 0\<rparr> \<lparr>lat = 0, lng = x\<rparr>
          = EARTH_RADIUS_METERS * (2 * atan2 (sqrt ((sin t)\<^sup>2)) (sqrt (1 - (sin t)\<^sup>2)))"
    by (simp only: great_circle_def a)
  also have "\<dots> = EARTH_RADIUS_METERS * (2 * t)"
    by (simp only: s1 s2 at)
  also have "\<dots> = EARTH_RADIUS_METERS * (x * pi / 180)"
    by (simp add: t_def)
  finally show ?thesis .
qed

subsection \<open>With the rounding of doubles\<close>

text \<open>A number between two powers of two is rounded on the grid of that binade.\<close>

lemma round_even_near:
  assumes "real_of_int n - 1 / 2 < y" "y < real_of_int n + 1 / 2"
  shows "round_even y = n"
proof (cases "real_of_int n \<le> y")
  case True
  then have "\<lfloor>y\<rfloor> = n" using assms(2) by linarith
  then show ?thesis using assms(2) by (simp add: round_even_def Let_def)
next
  case False
  then have "\<lfloor>y\<rfloor> = n - 1" using assms(1) by linarith
  then show ?thesis using assms(1) False by (simp add: round_even_def Let_def)
qed

lemma floor_log2:
  assumes "2 powi e \<le> \<bar>x\<bar>" "\<bar>x\<bar> < 2 powi (e + 1)"
  shows "\<lfloor>log 2 \<bar>x\<bar>\<rfloor> = e"
proof -
  have pos: "0 < \<bar>x\<bar>"
    using assms(1) by (smt (verit) zero_less_power_int)
  have a: "(2::real) powr real_of_int e = 2 powi e"
    by (rule powr_real_of_int') simp_all
  have b: "(2::real) powr real_of_int (e + 1) = 2 powi (e + 1)"
    by (rule powr_real_of_int') simp_all
  have "(\<lfloor>log 2 \<bar>x\<bar>\<rfloor> = e)
      = (2 powr real_of_int e \<le> \<bar>x\<bar> \<and> \<bar>x\<bar> < 2 powr real_of_int (e + 1))"
    using pos by (rule floor_log_eq_powr_iff) simp
  then show ?thesis
    using assms by (simp only: a b)
qed

lemma round_double_eq:
  assumes "2 powi e \<le> \<bar>x\<bar>" "\<bar>x\<bar> < 2 powi (e + 1)"
    and "real_of_int n - 1 / 2 < x / 2 powi (e - 52)"
    and "x / 2 powi (e - 52) < real_of_int n + 1 / 2"
    and "y = real_of_int n * 2 powi (e - 52)"
  shows "round_double x = y"
proof -
  have "x \<noteq> 0"
    using assms(1) by (smt (verit) zero_less_power_int)
  moreover have "\<lfloor>log 2 \<bar>x\<bar>\<rfloor> = e"
    using assms(1,2) by (rule floor_log2)
  moreover have "round_even (x / 2 powi (e - 52)) = n"
    using assms(3,4) by (rule round_even_near)
  ultimately show ?thesis
    using assms(5) by (simp add: round_double_def Let_def)
qed

lemma round_double_zero: "round_double 0 = 0"
  by (simp add: round_double_def)


text \<open>The haversine term, one rounded operation after the other.\<close>

lemma haversine_a_trace:
  assumes "fl ar (lat q - lat p) = d1" "fl ar (d1 * Math_PI ar) = d2" "fl ar (d2 / 180) = dLat"
    and "fl ar (lng q - lng p) = g1" "fl ar (g1 * Math_PI ar) = g2" "fl ar (g2 / 180) = dLng"
    and "fl ar (lat p * Math_PI ar) = p1" "fl ar (p1 / 180) = lat1"
    and "fl ar (lat q * Math_PI ar) = q1" "fl ar (q1 / 180) = lat2"
    and "fl ar (dLat / 2) = hLat" "fl ar (dLng / 2) = hLng"
    and "Math_sin ar hLat = s1" "Math_sin ar hLng = s2"
    and "Math_cos ar lat1 = c1" "Math_cos ar lat2 = c2"
    and "fl ar (s1 * s1) = t1" "fl ar (c1 * c2) = t2" "fl ar (t2 * s2) = t3"
    and "fl ar (t3 * s2) = t4" "fl ar (t1 + t4) = a"
  shows "haversine_a ar p q = a"
  unfolding haversine_a_def toRadians_def Let_def by (simp only: assms)

text \<open>
  The defended point (8, 1) and an object at (-8, -179), in doubles: the two differences
  are -16 and -180 degrees, the sine of the half difference of longitude is -1, the
  product of the two cosines rounds up, and the haversine term is the double after 1.
\<close>

lemma haversine_a_antipodal:
  "haversine_a double_arith \<lparr>lat = 8, lng = 1\<rparr> \<lparr>lat = - 8, lng = - 179\<rparr> = 4503599627370497 / 2 ^ 52"
proof -
  have d1: "fl double_arith (lat \<lparr>lat = - 8, lng = - 179\<rparr> - lat \<lparr>lat = 8, lng = 1\<rparr>) = - 16"
    unfolding double_arith_def arith.simps LatLng.simps
    by (rule round_double_eq[where e = "4" and n = "- 4503599627370496"])
       (simp_all add: double_PI_def)
  have d2: "fl double_arith (- 16 * Math_PI double_arith) = - (884279719003555 / 2 ^ 44)"
    unfolding double_arith_def arith.simps LatLng.simps
    by (rule round_double_eq[where e = "5" and n = "- 7074237752028440"])
       (simp_all add: double_PI_def)
  have dLat: "fl double_arith (- (884279719003555 / 2 ^ 44) / 180) = - (5030569068109113 / 2 ^ 54)"
    unfolding double_arith_def arith.simps LatLng.simps
    by (rule round_double_eq[where e = "- 2" and n = "- 5030569068109113"])
       (simp_all add: double_PI_def)
  have g1: "fl double_arith (lng \<lparr>lat = - 8, lng = - 179\<rparr> - lng \<lparr>lat = 8, lng = 1\<rparr>) = - 180"
    unfolding double_arith_def arith.simps LatLng.simps
    by (rule round_double_eq[where e = "7" and n = "- 6333186975989760"])
       (simp_all add: double_PI_def)
  have g2: "fl double_arith (- 180 * Math_PI double_arith) = - (4974073419394997 / 2 ^ 43)"
    unfolding double_arith_def arith.simps LatLng.simps
    by (rule round_double_eq[where e = "9" and n = "- 4974073419394997"])
       (simp_all add: double_PI_def)
  have dLng: "fl double_arith (- (4974073419394997 / 2 ^ 43) / 180) = - (884279719003555 / 2 ^ 48)"
    unfolding double_arith_def arith.simps LatLng.simps
    by (rule round_double_eq[where e = "1" and n = "- 7074237752028440"])
       (simp_all add: double_PI_def)
  have p1: "fl double_arith (lat \<lparr>lat = 8, lng = 1\<rparr> * Math_PI double_arith) = 884279719003555 / 2 ^ 45"
    unfolding double_arith_def arith.simps LatLng.simps
    by (rule round_double_eq[where e = "4" and n = "7074237752028440"])
       (simp_all add: double_PI_def)
  have lat1: "fl double_arith (884279719003555 / 2 ^ 45 / 180) = 5030569068109113 / 2 ^ 55"
    unfolding double_arith_def arith.simps LatLng.simps
    by (rule round_double_eq[where e = "- 3" and n = "5030569068109113"])
       (simp_all add: double_PI_def)
  have q1: "fl double_arith (lat \<lparr>lat = - 8, lng = - 179\<rparr> * Math_PI double_arith) = - (884279719003555 / 2 ^ 45)"
    unfolding double_arith_def arith.simps LatLng.simps
    by (rule round_double_eq[where e = "4" and n = "- 7074237752028440"])
       (simp_all add: double_PI_def)
  have lat2: "fl double_arith (- (884279719003555 / 2 ^ 45) / 180) = - (5030569068109113 / 2 ^ 55)"
    unfolding double_arith_def arith.simps LatLng.simps
    by (rule round_double_eq[where e = "- 3" and n = "- 5030569068109113"])
       (simp_all add: double_PI_def)
  have hLat: "fl double_arith (- (5030569068109113 / 2 ^ 54) / 2) = - (5030569068109113 / 2 ^ 55)"
    unfolding double_arith_def arith.simps LatLng.simps
    by (rule round_double_eq[where e = "- 3" and n = "- 5030569068109113"])
       (simp_all add: double_PI_def)
  have hLng: "fl double_arith (- (884279719003555 / 2 ^ 48) / 2) = - (884279719003555 / 2 ^ 49)"
    unfolding double_arith_def arith.simps LatLng.simps
    by (rule round_double_eq[where e = "0" and n = "- 7074237752028440"])
       (simp_all add: double_PI_def)
  have s1: "Math_sin double_arith (- (5030569068109113 / 2 ^ 55)) = - (5014239404989977 / 2 ^ 55)"
    by (simp add: double_arith_def double_sin_def double_cos_def round_double_zero)
  have s2: "Math_sin double_arith (- (884279719003555 / 2 ^ 49)) = - 1"
    by (simp add: double_arith_def double_sin_def double_cos_def round_double_zero)
  have c1: "Math_cos double_arith (5030569068109113 / 2 ^ 55) = 4459770905381437 / 2 ^ 52"
    by (simp add: double_arith_def double_sin_def double_cos_def round_double_zero)
  have c2: "Math_cos double_arith (- (5030569068109113 / 2 ^ 55)) = 4459770905381437 / 2 ^ 52"
    by (simp add: double_arith_def double_sin_def double_cos_def round_double_zero)
  have t1: "fl double_arith (- (5014239404989977 / 2 ^ 55) * - (5014239404989977 / 2 ^ 55)) = 1395694493897217 / 2 ^ 56"
    unfolding double_arith_def arith.simps LatLng.simps
    by (rule round_double_eq[where e = "- 6" and n = "5582777975588868"])
       (simp_all add: double_PI_def)
  have t2: "fl double_arith (4459770905381437 / 2 ^ 52 * (4459770905381437 / 2 ^ 52)) = 8832737443003841 / 2 ^ 53"
    unfolding double_arith_def arith.simps LatLng.simps
    by (rule round_double_eq[where e = "- 1" and n = "8832737443003841"])
       (simp_all add: double_PI_def)
  have t3: "fl double_arith (8832737443003841 / 2 ^ 53 * - 1) = - (8832737443003841 / 2 ^ 53)"
    unfolding double_arith_def arith.simps LatLng.simps
    by (rule round_double_eq[where e = "- 1" and n = "- 8832737443003841"])
       (simp_all add: double_PI_def)
  have t4: "fl double_arith (- (8832737443003841 / 2 ^ 53) * - 1) = 8832737443003841 / 2 ^ 53"
    unfolding double_arith_def arith.simps LatLng.simps
    by (rule round_double_eq[where e = "- 1" and n = "8832737443003841"])
       (simp_all add: double_PI_def)
  have a: "fl double_arith (1395694493897217 / 2 ^ 56 + 8832737443003841 / 2 ^ 53) = 4503599627370497 / 2 ^ 52"
    unfolding double_arith_def arith.simps LatLng.simps
    by (rule round_double_eq[where e = "0" and n = "4503599627370497"])
       (simp_all add: double_PI_def)
  show ?thesis
    by (rule haversine_a_trace[OF d1 d2 dLat g1 g2 dLng p1 lat1 q1 lat2 hLat hLng s1 s2 c1 c2 t1 t2 t3 t4 a])
qed

text \<open>The same defended point and an object at the point itself.\<close>

lemma haversine_a_at_point:
  "haversine_a double_arith \<lparr>lat = 8, lng = 1\<rparr> \<lparr>lat = 8, lng = 1\<rparr> = 0"
proof -
  have d1: "fl double_arith (lat \<lparr>lat = 8, lng = 1\<rparr> - lat \<lparr>lat = 8, lng = 1\<rparr>) = 0"
    by (simp add: double_arith_def round_double_zero)
  have d2: "fl double_arith (0 * Math_PI double_arith) = 0"
    by (simp add: double_arith_def round_double_zero)
  have dLat: "fl double_arith (0 / 180) = 0"
    by (simp add: double_arith_def round_double_zero)
  have g1: "fl double_arith (lng \<lparr>lat = 8, lng = 1\<rparr> - lng \<lparr>lat = 8, lng = 1\<rparr>) = 0"
    by (simp add: double_arith_def round_double_zero)
  have g2: "fl double_arith (0 * Math_PI double_arith) = 0"
    by (simp add: double_arith_def round_double_zero)
  have dLng: "fl double_arith (0 / 180) = 0"
    by (simp add: double_arith_def round_double_zero)
  have p1: "fl double_arith (lat \<lparr>lat = 8, lng = 1\<rparr> * Math_PI double_arith) = 884279719003555 / 2 ^ 45"
    unfolding double_arith_def arith.simps LatLng.simps
    by (rule round_double_eq[where e = "4" and n = "7074237752028440"])
       (simp_all add: double_PI_def)
  have lat1: "fl double_arith (884279719003555 / 2 ^ 45 / 180) = 5030569068109113 / 2 ^ 55"
    unfolding double_arith_def arith.simps LatLng.simps
    by (rule round_double_eq[where e = "- 3" and n = "5030569068109113"])
       (simp_all add: double_PI_def)
  have q1: "fl double_arith (lat \<lparr>lat = 8, lng = 1\<rparr> * Math_PI double_arith) = 884279719003555 / 2 ^ 45"
    unfolding double_arith_def arith.simps LatLng.simps
    by (rule round_double_eq[where e = "4" and n = "7074237752028440"])
       (simp_all add: double_PI_def)
  have lat2: "fl double_arith (884279719003555 / 2 ^ 45 / 180) = 5030569068109113 / 2 ^ 55"
    unfolding double_arith_def arith.simps LatLng.simps
    by (rule round_double_eq[where e = "- 3" and n = "5030569068109113"])
       (simp_all add: double_PI_def)
  have hLat: "fl double_arith (0 / 2) = 0"
    by (simp add: double_arith_def round_double_zero)
  have hLng: "fl double_arith (0 / 2) = 0"
    by (simp add: double_arith_def round_double_zero)
  have s1: "Math_sin double_arith (0) = 0"
    by (simp add: double_arith_def double_sin_def double_cos_def round_double_zero)
  have s2: "Math_sin double_arith (0) = 0"
    by (simp add: double_arith_def double_sin_def double_cos_def round_double_zero)
  have c1: "Math_cos double_arith (5030569068109113 / 2 ^ 55) = 4459770905381437 / 2 ^ 52"
    by (simp add: double_arith_def double_sin_def double_cos_def round_double_zero)
  have c2: "Math_cos double_arith (5030569068109113 / 2 ^ 55) = 4459770905381437 / 2 ^ 52"
    by (simp add: double_arith_def double_sin_def double_cos_def round_double_zero)
  have t1: "fl double_arith (0 * 0) = 0"
    by (simp add: double_arith_def round_double_zero)
  have t2: "fl double_arith (4459770905381437 / 2 ^ 52 * (4459770905381437 / 2 ^ 52)) = 8832737443003841 / 2 ^ 53"
    unfolding double_arith_def arith.simps LatLng.simps
    by (rule round_double_eq[where e = "- 1" and n = "8832737443003841"])
       (simp_all add: double_PI_def)
  have t3: "fl double_arith (8832737443003841 / 2 ^ 53 * 0) = 0"
    by (simp add: double_arith_def round_double_zero)
  have t4: "fl double_arith (0 * 0) = 0"
    by (simp add: double_arith_def round_double_zero)
  have a: "fl double_arith (0 + 0) = 0"
    by (simp add: double_arith_def round_double_zero)
  show ?thesis
    by (rule haversine_a_trace[OF d1 d2 dLat g1 g2 dLng p1 lat1 q1 lat2 hLat hLng s1 s2 c1 c2 t1 t2 t3 t4 a])
qed

text \<open>Then \<^verbatim>\<open>1 - a\<close> is negative, its square root is \<^verbatim>\<open>NaN\<close>, and so is the distance.\<close>

lemma calculateDistanceMeters_antipodal:
  "calculateDistanceMeters double_arith \<lparr>lat = 8, lng = 1\<rparr> \<lparr>lat = - 8, lng = - 179\<rparr> = NaN"
proof -
  have b: "fl double_arith (1 - 4503599627370497 / 2 ^ 52) = - (1 / 2 ^ 52)"
    unfolding double_arith_def arith.simps
    by (rule round_double_eq[where e = "- 52" and n = "- 4503599627370496"]) simp_all
  have s: "sqrt_js double_arith (fl double_arith (1 - 4503599627370497 / 2 ^ 52)) = None"
    unfolding b by (simp add: sqrt_js_def)
  show ?thesis
    unfolding calculateDistanceMeters_def haversine_a_antipodal Let_def s
    by (simp add: sqrt_js_def)
qed

lemma round_double_one: "round_double 1 = 1"
  by (rule round_double_eq[where e = 0 and n = 4503599627370496]) simp_all

lemma double_arith_sel:
  "fl double_arith = round_double"
  "Math_sin double_arith = double_sin"
  "Math_cos double_arith = double_cos"
  "Math_sqrt double_arith = (\<lambda>x. round_double (sqrt x))"
  "Math_atan2 double_arith = (\<lambda>y x. round_double (atan2 y x))"
  "Math_PI double_arith = double_PI"
  by (simp_all add: double_arith_def)

lemma calculateDistanceMeters_at_point:
  "calculateDistanceMeters double_arith \<lparr>lat = 8, lng = 1\<rparr> \<lparr>lat = 8, lng = 1\<rparr> = Finite 0"
  by (simp add: calculateDistanceMeters_def haversine_a_at_point sqrt_js_def double_arith_sel
        round_double_zero round_double_one atan2_def)

section \<open>Evaluation of the sample data\<close>

lemmas parse_defs = parseFloat_def Let_def strip_sign_def is_digit_def digit_of_def
  digits_value_def exponent_part_def is_ws_def overflow_bound_def

lemmas sample_defs = origin_def drone_far_first_def drone_near_later_def
  drone_string_speed_def sample_events_def

lemma parseFloat_examples:
  "parseFloat ''14.3'' = Finite (143 / 10)"
  "parseFloat ''  -1.5e2xyz'' = Finite (- 150)"
  "parseFloat ''.5'' = Finite (1 / 2)"
  "parseFloat ''1e-2'' = Finite (1 / 100)"
  "parseFloat ''Infinity'' = PosInf"
  "parseFloat ''abc'' = NaN"
  "parseFloat ''undefined'' = NaN"
  "parseFloat '''' = NaN"
  "parseFloat ''1e309'' = PosInf"
  "parseFloat ''-1e309'' = NegInf"
  "parseFloat [CHR 0xA0, CHR ''5''] = Finite 5"
  by (simp_all add: parse_defs)

lemma sample_ids:
  "obj_id drone_far_first = JStr ''obj_001''"
  "obj_id drone_near_later = JStr ''obj_001''"
  "obj_id drone_string_speed = JStr ''obj_002''"
  by (simp_all add: obj_id_def get_prop_def sample_defs)

lemma reading_far:
  "reading exact_arith origin 1500 drone_far_first =
     Some \<lparr>i_object = drone_far_first, distance = Finite (EARTH_RADIUS_METERS * (pi / 18000)),
       etaSeconds = Some (Finite (EARTH_RADIUS_METERS * (pi / 18000) / 10))\<rparr>"
proof -
  have d: "great_circle \<lparr>lat = 0, lng = 0\<rparr> \<lparr>lat = 0, lng = 1 / 100\<rparr>
             = EARTH_RADIUS_METERS * (pi / 18000)"
    using distance_along_equator[of "1 / 100"] by simp
  have le: "\<not> EARTH_RADIUS_METERS * (pi / 18000) > 1500"
    using pi_less_4 by (simp add: EARTH_RADIUS_METERS_def)
  have la: "numberOrParse (get_prop drone_far_first ''lat'') = Finite 0"
    by (simp add: drone_far_first_def get_prop_def numberOrParse_def)
  have lo: "numberOrParse (get_prop drone_far_first ''lng'') = Finite (1 / 100)"
    by (simp add: drone_far_first_def get_prop_def numberOrParse_def parse_defs)
  have eta: "eta_of exact_arith drone_far_first (Finite d) = Some (Finite (d / 10))" for d
    by (simp add: drone_far_first_def get_prop_def eta_of_def truthy_def js_pos_def js_quot_def
          exact_arith_sel)
  show ?thesis
    unfolding reading_def la lo origin_def
    using le by (simp add: calculateDistanceMeters_exact d eta Let_def js_gt_def)
qed

lemma reading_near:
  "reading exact_arith origin 1500 drone_near_later =
     Some \<lparr>i_object = drone_near_later, distance = Finite 0, etaSeconds = Some (Finite 0)\<rparr>"
  by (simp add: reading_def drone_near_later_def origin_def get_prop_def numberOrParse_def
        calculateDistanceMeters_exact great_circle_same eta_of_def truthy_def js_pos_def
        js_quot_def js_gt_def exact_arith_sel Let_def)

lemma reading_string_speed:
  "reading exact_arith origin 1500 drone_string_speed =
     Some \<lparr>i_object = drone_string_speed, distance = Finite 0, etaSeconds = None\<rparr>"
  by (simp add: reading_def drone_string_speed_def origin_def get_prop_def numberOrParse_def
        calculateDistanceMeters_exact great_circle_same eta_of_def js_gt_def parse_defs)

section \<open>The registry of latest objects\<close>

lemma register_event_occurrences:
  "foldl register_event m events =
     foldl (\<lambda>m e. map_set (obj_id (object e)) e m) m (occurrences events)"
proof (induction events arbitrary: m)
  case Nil
  then show ?case by (simp add: occurrences_def)
next
  case (Cons ev events)
  have step: "register_event m ev =
      foldl (\<lambda>m e. map_set (obj_id (object e)) e m) m (occurrences [ev])"
    by (cases "objects ev") (simp_all add: register_event_def occurrences_def foldl_map)
  have app: "occurrences (ev # events) = occurrences [ev] @ occurrences events"
    by (simp add: occurrences_def)
  show ?case
    by (simp only: foldl.simps Cons step app foldl_append)
qed

lemma register_event_None: "objects ev = None \<Longrightarrow> register_event m ev = m"
  by (simp add: register_event_def)

text \<open>
  Claim C1.  For every list of events, the registry built by \<^verbatim>\<open>buildLatestObjects\<close> has
  at most one entry for an object id, and its entry for an id \<open>k\<close> is the last element,
  in the order of iteration, that carries \<open>k\<close>, with that element's object and the time
  stamp of its event; there is an entry exactly when \<open>k\<close> occurs.  The time stamps play no
  part in the choice.
\<close>

theorem registry_last_in_array_wins:
  "distinct (map (\<lambda>e. obj_id (object e)) (buildLatestObjects getTime events)) \<and>
   find (\<lambda>e. obj_id (object e) = k) (buildLatestObjects getTime events)
     = find (\<lambda>e. obj_id (object e) = k) (rev (occurrences events))"
proof -
  let ?key = "\<lambda>e. obj_id (object e)"
  let ?m = "foldl register_event [] events"
  have m: "?m = foldl (\<lambda>m e. map_set (?key e) e m) [] (occurrences events)"
    by (rule register_event_occurrences)
  have k: "keyed ?key ?m"
    unfolding m by (rule keyed_foldl_set) (rule keyed_Nil)
  have d: "distinct (map ?key (map_values ?m))"
    using k by (rule keyed_values_distinct)
  have p: "mset (buildLatestObjects getTime events) = mset (map_values ?m)"
    by (simp add: buildLatestObjects_def mset_js_sort)
  have d': "distinct (map ?key (buildLatestObjects getTime events))"
    using d p by (metis mset_eq_imp_distinct_iff mset_map)
  have "find (\<lambda>e. ?key e = k) (buildLatestObjects getTime events)
          = find (\<lambda>e. ?key e = k) (map_values ?m)"
    using d p by (rule find_perm)
  also have "\<dots> = map_of ?m k"
    using k by (rule find_keyed_values)
  also have "\<dots> = find (\<lambda>e. ?key e = k) (rev (occurrences events))"
    unfolding m by (simp add: map_of_foldl_set split: option.splits)
  finally show ?thesis using d' by simp
qed

text \<open>In the sample the object \<open>obj_001\<close> is seen on 2 May and, later in the array, on
  1 May: the registry keeps the sighting of 1 May.\<close>

theorem registry_last_in_array_wins_witness:
  "find (\<lambda>e. obj_id (object e) = JStr ''obj_001'') (buildLatestObjects sample_time sample_events)
     = Some \<lparr>object = drone_near_later, lastSeen = ''2024-05-01T10:00:00Z''\<rparr>"
proof -
  have "find (\<lambda>e. obj_id (object e) = JStr ''obj_001'') (rev (occurrences sample_events))
          = Some \<lparr>object = drone_near_later, lastSeen = ''2024-05-01T10:00:00Z''\<rparr>"
    by (simp add: occurrences_def sample_events_def sample_ids)
  then show ?thesis
    using registry_last_in_array_wins[of sample_time sample_events "JStr ''obj_001''"] by simp
qed

section \<open>Proximity alerts\<close>

lemma scan_object_reading:
  "scan_object ar p r seen obj =
     (case reading ar p r obj of
        None \<Rightarrow> seen
      | Some e \<Rightarrow> put_new (\<lambda>e. obj_id (i_object e)) seen e)"
  by (simp add: scan_object_def reading_def put_new_def Let_def split: jsnum.splits)

lemma foldl_scan_object:
  "foldl (scan_object ar p r) seen objs =
     foldl (put_new (\<lambda>e. obj_id (i_object e))) seen (List.map_filter (reading ar p r) objs)"
  by (induction objs arbitrary: seen)
     (simp_all add: map_filter_simps scan_object_reading split: option.splits)

lemma scan_event_None: "objects ev = None \<Longrightarrow> scan_event ar p r seen ev = seen"
  by (simp add: scan_event_def)

lemma foldl_scan_event:
  "foldl (scan_event ar p r) seen events =
     foldl (put_new (\<lambda>e. obj_id (i_object e))) seen (in_range_readings ar p r events)"
proof (induction events arbitrary: seen)
  case Nil
  then show ?case
    by (simp add: in_range_readings_def all_objects_def map_filter_simps)
next
  case (Cons ev events)
  have step: "scan_event ar p r seen ev =
      foldl (put_new (\<lambda>e. obj_id (i_object e))) seen (in_range_readings ar p r [ev])"
    by (cases "objects ev")
       (simp_all add: scan_event_def in_range_readings_def all_objects_def foldl_scan_object
          map_filter_simps)
  have app: "in_range_readings ar p r (ev # events)
               = in_range_readings ar p r [ev] @ in_range_readings ar p r events"
    by (simp add: in_range_readings_def all_objects_def map_filter_append)
  show ?case
    by (simp only: foldl.simps Cons step app foldl_append)
qed

lemma reading_Some:
  "reading ar p r obj = Some e \<Longrightarrow>
     \<not> js_gt (distance e) r \<and> i_object e = obj \<and> etaSeconds e = eta_of ar obj (distance e)"
  by (auto simp: reading_def Let_def split: jsnum.splits if_splits)

lemma reading_exact:
  "reading exact_arith p r obj = Some e \<Longrightarrow> \<exists>d. distance e = Finite d \<and> d \<le> r"
  by (auto simp: reading_def Let_def calculateDistanceMeters_exact js_gt_def
        split: jsnum.splits if_splits)

lemma in_range_readings_reading:
  "e \<in> set (in_range_readings ar p r events) \<Longrightarrow> \<exists>obj. reading ar p r obj = Some e"
  by (auto simp: in_range_readings_def List.map_filter_def)

lemma intruders_subset:
  "set (intruders ar events (Some p) r) \<subseteq> set (in_range_readings ar p r events)"
  using put_new_subset[of "\<lambda>e. obj_id (i_object e)" "[]" "in_range_readings ar p r events"]
  by (auto simp: intruders_def set_js_sort foldl_scan_event map_values_def)

lemma intruders_readings:
  "0 < r \<Longrightarrow>
     intruders ar events (Some p) r =
       js_sort (\<lambda>a b. js_sub ar (distance a) (distance b))
         (map_values (foldl (put_new (\<lambda>e. obj_id (i_object e))) []
            (in_range_readings ar p r events)))"
  by (simp add: intruders_def foldl_scan_event)

lemma find_readings:
  "find (\<lambda>e. obj_id (i_object e) = k) (List.map_filter (reading ar p r) objs) =
     (case find (\<lambda>obj. obj_id obj = k \<and> reading ar p r obj \<noteq> None) objs of
        None \<Rightarrow> None
      | Some obj \<Rightarrow> reading ar p r obj)"
proof (induction objs)
  case Nil
  then show ?case by (simp add: map_filter_simps)
next
  case (Cons obj objs)
  show ?case
  proof (cases "reading ar p r obj")
    case None
    then show ?thesis by (simp add: map_filter_simps Cons)
  next
    case (Some e)
    then have "i_object e = obj" by (simp add: reading_Some)
    with Some show ?thesis by (simp add: map_filter_simps Cons)
  qed
qed

text \<open>The entries of the scan have distinct ids, and the entry for an id is the first
  reading with that id.\<close>

lemma intruders_lookup:
  assumes "0 < r"
  shows "distinct (map (\<lambda>e. obj_id (i_object e)) (intruders ar events (Some p) r)) \<and>
     find (\<lambda>e. obj_id (i_object e) = k) (intruders ar events (Some p) r)
       = find (\<lambda>e. obj_id (i_object e) = k) (in_range_readings ar p r events)"
proof -
  let ?key = "\<lambda>e. obj_id (i_object e)"
  let ?m = "foldl (scan_event ar p r) [] events"
  have m: "?m = foldl (put_new ?key) [] (in_range_readings ar p r events)"
    by (rule foldl_scan_event)
  have k: "keyed ?key ?m"
    unfolding m by (rule keyed_foldl_new) (rule keyed_Nil)
  have d: "distinct (map ?key (map_values ?m))"
    using k by (rule keyed_values_distinct)
  have i: "intruders ar events (Some p) r
             = js_sort (\<lambda>a b. js_sub ar (distance a) (distance b)) (map_values ?m)"
    using assms by (simp add: intruders_def)
  have p: "mset (intruders ar events (Some p) r) = mset (map_values ?m)"
    unfolding i by (rule mset_js_sort)
  have d': "distinct (map ?key (intruders ar events (Some p) r))"
    using d p by (metis mset_eq_imp_distinct_iff mset_map)
  have "find (\<lambda>e. ?key e = k) (intruders ar events (Some p) r)
          = find (\<lambda>e. ?key e = k) (map_values ?m)"
    using d p by (rule find_perm)
  also have "\<dots> = map_of ?m k"
    using k by (rule find_keyed_values)
  also have "\<dots> = find (\<lambda>e. ?key e = k) (in_range_readings ar p r events)"
    unfolding m by (simp add: map_of_foldl_new)
  finally show ?thesis
    using d' by simp
qed

lemma sample_readings:
  "in_range_readings exact_arith origin 1500 sample_events =
     [\<lparr>i_object = drone_far_first, distance = Finite (EARTH_RADIUS_METERS * (pi / 18000)),
        etaSeconds = Some (Finite (EARTH_RADIUS_METERS * (pi / 18000) / 10))\<rparr>,
      \<lparr>i_object = drone_string_speed, distance = Finite 0, etaSeconds = None\<rparr>,
      \<lparr>i_object = drone_near_later, distance = Finite 0, etaSeconds = Some (Finite 0)\<rparr>]"
  by (simp add: in_range_readings_def all_objects_def sample_events_def map_filter_simps
        reading_far reading_near reading_string_speed)

lemma sample_intruders:
  "intruders exact_arith sample_events (Some origin) 1500 =
     [\<lparr>i_object = drone_string_speed, distance = Finite 0, etaSeconds = None\<rparr>,
      \<lparr>i_object = drone_far_first, distance = Finite (EARTH_RADIUS_METERS * (pi / 18000)),
        etaSeconds = Some (Finite (EARTH_RADIUS_METERS * (pi / 18000) / 10))\<rparr>]"
proof -
  have pos: "0 < EARTH_RADIUS_METERS * (pi / 18000)"
    by (simp add: EARTH_RADIUS_METERS_def)
  show ?thesis
    using pos
    by (simp add: intruders_def foldl_scan_event sample_readings put_new_def map_has_def
        sample_ids map_values_def js_sort_def js_pos_def js_sub_def exact_arith_sel)
qed

text \<open>
  Without rounding, every entry of the list returned by the intruder scan has a distance
  that is a number of at most the detection radius, and the list is in ascending order of
  distance.
\<close>

lemma intruders_exact_within_radius_sorted:
  "(\<forall>e \<in> set (intruders exact_arith events defaultLocation detectionRadius).
      \<exists>d. distance e = Finite d \<and> d \<le> detectionRadius) \<and>
   sorted (map (\<lambda>e. num_of (distance e)) (intruders exact_arith events defaultLocation detectionRadius))"
proof (cases defaultLocation)
  case None
  then show ?thesis by (simp add: intruders_def)
next
  case (Some p)
  let ?m = "map_values (foldl (scan_event exact_arith p detectionRadius) [] events)"
  have fin: "\<exists>d. distance e = Finite d \<and> d \<le> detectionRadius" if mem: "e \<in> set ?m" for e
  proof -
    have "e \<in> set (in_range_readings exact_arith p detectionRadius events)"
      using mem
        put_new_subset[of "\<lambda>e. obj_id (i_object e)" "[]"
          "in_range_readings exact_arith p detectionRadius events"]
      by (auto simp: foldl_scan_event map_values_def)
    then obtain obj where "reading exact_arith p detectionRadius obj = Some e"
      using in_range_readings_reading by blast
    then show ?thesis by (rule reading_exact)
  qed
  have cmp: "js_sub exact_arith (distance a) (distance b)
               = Finite (num_of (distance a) - num_of (distance b))"
    if "a \<in> set ?m" "b \<in> set ?m" for a b
    using fin[OF that(1)] fin[OF that(2)]
    by (auto simp: js_sub_def num_of_def exact_arith_sel)
  have srt: "sorted (map (\<lambda>e. num_of (distance e))
               (js_sort (\<lambda>a b. js_sub exact_arith (distance a) (distance b)) ?m))"
    using cmp by (rule sorted_js_sort)
  have mem: "set (js_sort (\<lambda>a b. js_sub exact_arith (distance a) (distance b)) ?m) = set ?m"
    by (rule set_js_sort)
  show ?thesis
  proof (cases "detectionRadius \<le> 0")
    case True
    then show ?thesis using Some by (simp add: intruders_def)
  next
    case False
    then have i: "intruders exact_arith events defaultLocation detectionRadius
        = js_sort (\<lambda>a b. js_sub exact_arith (distance a) (distance b)) ?m"
      using Some by (simp add: intruders_def)
    show ?thesis
      unfolding i using srt fin mem by blast
  qed
qed

text \<open>
  Claim C5.  Every entry of the list returned by the intruder scan has a distance of at
  most the detection radius, and the list is in ascending order of distance.  In the
  arithmetic of doubles this fails for the defended point (8, 1), a radius of 1500 metres
  and an event with an object at (-8, -179), close to the antipode, followed by an object
  at the defended point: the distance of the first object is \<^verbatim>\<open>NaN\<close>, the test
  \<^verbatim>\<open>distance > detectionRadius\<close> is false for it, and the scan returns it, with a
  distance and an ETA that are \<^verbatim>\<open>NaN\<close>, ahead of the object at distance 0.
\<close>

theorem intruders_antipodal_distance_is_NaN:
  "intruders double_arith [antipodal_event] (Some defended_point) 1500 =
     [\<lparr>i_object = drone_antipodal, distance = NaN, etaSeconds = Some NaN\<rparr>,
      \<lparr>i_object = drone_at_point, distance = Finite 0, etaSeconds = None\<rparr>]"
proof -
  have a: "reading double_arith \<lparr>lat = 8, lng = 1\<rparr> 1500 drone_antipodal
             = Some \<lparr>i_object = drone_antipodal, distance = NaN, etaSeconds = Some NaN\<rparr>"
    by (simp add: reading_def drone_antipodal_def get_prop_def numberOrParse_def
          calculateDistanceMeters_antipodal js_gt_def eta_of_def truthy_def js_pos_def js_quot_def)
  have b: "reading double_arith \<lparr>lat = 8, lng = 1\<rparr> 1500 drone_at_point
             = Some \<lparr>i_object = drone_at_point, distance = Finite 0, etaSeconds = None\<rparr>"
    by (simp add: reading_def drone_at_point_def get_prop_def numberOrParse_def
          calculateDistanceMeters_at_point js_gt_def eta_of_def)
  have ids: "obj_id drone_antipodal = JStr ''obj_010''" "obj_id drone_at_point = JStr ''obj_011''"
    by (simp_all add: obj_id_def get_prop_def drone_antipodal_def drone_at_point_def)
  have r: "in_range_readings double_arith \<lparr>lat = 8, lng = 1\<rparr> 1500 [antipodal_event] =
      [\<lparr>i_object = drone_antipodal, distance = NaN, etaSeconds = Some NaN\<rparr>,
       \<lparr>i_object = drone_at_point, distance = Finite 0, etaSeconds = None\<rparr>]"
    by (simp add: in_range_readings_def all_objects_def antipodal_event_def map_filter_simps a b)
  show ?thesis
    by (simp add: intruders_readings defended_point_def r put_new_def map_has_def
          ids map_values_def js_sort_def js_pos_def js_sub_def)
qed

text \<open>
  Claim C6.  The intruder scan returns the empty list whenever the defended point is
  absent or the detection radius is at most zero, whatever the events are.
\<close>

theorem intruders_empty_without_point_or_radius:
  "defaultLocation = None \<or> detectionRadius \<le> 0 \<Longrightarrow>
     intruders ar events defaultLocation detectionRadius = []"
  by (auto simp: intruders_def split: option.splits)

theorem intruders_empty_without_point_or_radius_witness:
  "intruders exact_arith sample_events None 1500 = [] \<and>
   intruders exact_arith sample_events (Some origin) 0 = [] \<and>
   intruders exact_arith sample_events (Some origin) 1500 \<noteq> []"
  using intruders_empty_without_point_or_radius[where defaultLocation = None
      and detectionRadius = 1500 and ar = exact_arith and events = sample_events]
    intruders_empty_without_point_or_radius[where defaultLocation = "Some origin"
      and detectionRadius = 0 and ar = exact_arith and events = sample_events]
  by (simp add: sample_intruders)

text \<open>
  Claim C7.  In one pass of the intruder scan the entry recorded for an object id \<open>k\<close>
  is the reading (object, distance, ETA) of the first object, in the order of iteration,
  that carries \<open>k\<close> and is in range; every later object with the same id is ignored.
\<close>

theorem intruders_first_occurrence_wins:
  assumes "0 < detectionRadius"
  shows "find (\<lambda>e. obj_id (i_object e) = k) (intruders ar events (Some p) detectionRadius) =
     (case find (\<lambda>obj. obj_id obj = k \<and> reading ar p detectionRadius obj \<noteq> None)
             (all_objects events) of
        None \<Rightarrow> None
      | Some obj \<Rightarrow> reading ar p detectionRadius obj)"
proof -
  have "find (\<lambda>e. obj_id (i_object e) = k) (intruders ar events (Some p) detectionRadius)
          = find (\<lambda>e. obj_id (i_object e) = k) (in_range_readings ar p detectionRadius events)"
    using intruders_lookup[OF assms] by (rule conjunct2)
  then show ?thesis
    by (simp add: in_range_readings_def find_readings)
qed

text \<open>In the sample the object \<open>obj_001\<close> is first read 0.01 degrees away and later at the
  defended point itself: the entry keeps the first reading.\<close>

theorem intruders_first_occurrence_wins_witness:
  "(0::real) < 1500 \<and>
   reading exact_arith origin 1500 drone_near_later
     = Some \<lparr>i_object = drone_near_later, distance = Finite 0, etaSeconds = Some (Finite 0)\<rparr> \<and>
   find (\<lambda>e. obj_id (i_object e) = JStr ''obj_001'')
       (intruders exact_arith sample_events (Some origin) 1500)
     = Some \<lparr>i_object = drone_far_first, distance = Finite (EARTH_RADIUS_METERS * (pi / 18000)),
         etaSeconds = Some (Finite (EARTH_RADIUS_METERS * (pi / 18000) / 10))\<rparr>"
proof -
  have r: "(0::real) < 1500" by simp
  have "find (\<lambda>obj. obj_id obj = JStr ''obj_001'' \<and> reading exact_arith origin 1500 obj \<noteq> None)
          (all_objects sample_events) = Some drone_far_first"
    by (simp add: all_objects_def sample_events_def sample_ids reading_far)
  then show ?thesis
    using intruders_first_occurrence_wins[OF r, where k = "JStr ''obj_001''"
        and events = sample_events and p = origin and ar = exact_arith]
    by (simp add: reading_far reading_near)
qed

lemma eta_of_iff:
  "(eta_of ar obj d \<noteq> None) = (\<exists>n. get_prop obj ''speed'' = JNum n \<and> js_pos n)"
  by (auto simp: eta_of_def truthy_def js_pos_def split: jsval.splits jsnum.splits)

text \<open>
  Claim C10.  An entry of the intruder scan has an ETA exactly when the field \<open>speed\<close> at
  the top level of its object is a number greater than zero; a speed given as a string,
  or only inside the telemetry block, gives no ETA.
\<close>

theorem eta_only_from_numeric_top_level_speed:
  "\<forall>e \<in> set (intruders ar events defaultLocation detectionRadius).
     (etaSeconds e \<noteq> None) = (\<exists>n. get_prop (i_object e) ''speed'' = JNum n \<and> js_pos n)"
proof (cases defaultLocation)
  case None
  then show ?thesis by (simp add: intruders_def)
next
  case (Some p)
  have "(etaSeconds e \<noteq> None) = (\<exists>n. get_prop (i_object e) ''speed'' = JNum n \<and> js_pos n)"
    if mem: "e \<in> set (intruders ar events (Some p) detectionRadius)" for e
  proof -
    obtain obj where "reading ar p detectionRadius obj = Some e"
      using mem intruders_subset in_range_readings_reading by blast
    then have "i_object e = obj" "etaSeconds e = eta_of ar obj (distance e)"
      using reading_Some by blast+
    then show ?thesis using eta_of_iff[of ar obj "distance e"] by simp
  qed
  then show ?thesis using Some by blast
qed

text \<open>In the sample, \<open>obj_002\<close> has its coordinates as strings and is read, and has its
  speed as a string and in the telemetry block only: it has no ETA.\<close>

theorem eta_only_from_numeric_top_level_speed_witness:
  "\<lparr>i_object = drone_string_speed, distance = Finite 0, etaSeconds = None\<rparr>
     \<in> set (intruders exact_arith sample_events (Some origin) 1500) \<and>
   get_prop drone_string_speed ''speed'' = JStr ''10'' \<and>
   get_member (get_prop drone_string_speed ''details'') ''speed'' = JNum (Finite 10) \<and>
   \<not> (\<exists>n. get_prop drone_string_speed ''speed'' = JNum n \<and> js_pos n)"
proof -
  let ?e = "\<lparr>i_object = drone_string_speed, distance = Finite 0, etaSeconds = None\<rparr>"
  have mem: "?e \<in> set (intruders exact_arith sample_events (Some origin) 1500)"
    by (simp add: sample_intruders)
  have "(etaSeconds ?e \<noteq> None)
          = (\<exists>n. get_prop (i_object ?e) ''speed'' = JNum n \<and> js_pos n)"
    using eta_only_from_numeric_top_level_speed[of exact_arith sample_events "Some origin" 1500] mem
    by blast
  then have "\<not> (\<exists>n. get_prop drone_string_speed ''speed'' = JNum n \<and> js_pos n)"
    by simp
  moreover have "get_prop drone_string_speed ''speed'' = JStr ''10''"
    "get_member (get_prop drone_string_speed ''details'') ''speed'' = JNum (Finite 10)"
    by (simp_all add: drone_string_speed_def get_prop_def get_member_def)
  ultimately show ?thesis using mem by blast
qed

text \<open>
  Claim C9.  An event whose objects field is null or undefined is skipped by the registry
  build and by the intruder scan: at any place of the list, both give the result they
  give without the event, and on such an event alone both give the empty list.  The call
  of \<^verbatim>\<open>forEach\<close> on the objects field is the one operation of the two functions that
  can fail on such an event, and the optional chaining in front of it is the case \<open>None\<close>
  of \<open>register_event\<close> and \<open>scan_event\<close>, which returns the map as it is.
\<close>

theorem events_without_objects_are_skipped:
  "objects ev = None \<Longrightarrow>
     buildLatestObjects getTime (before @ ev # after) = buildLatestObjects getTime (before @ after) \<and>
     intruders ar (before @ ev # after) defaultLocation detectionRadius
       = intruders ar (before @ after) defaultLocation detectionRadius \<and>
     buildLatestObjects getTime [ev] = [] \<and>
     intruders ar [ev] defaultLocation detectionRadius = []"
  by (simp add: buildLatestObjects_def intruders_def register_event_None scan_event_None
        js_sort_def map_values_def split: option.splits)

theorem events_without_objects_are_skipped_witness:
  "objects (sample_events ! 1) = None \<and>
   buildLatestObjects sample_time sample_events
     = buildLatestObjects sample_time [sample_events ! 0, sample_events ! 2] \<and>
   intruders exact_arith sample_events (Some origin) 1500
     = intruders exact_arith [sample_events ! 0, sample_events ! 2] (Some origin) 1500 \<and>
   intruders exact_arith [sample_events ! 1] (Some origin) 1500 = []"
proof -
  have n: "objects (sample_events ! 1) = None"
    by (simp add: sample_events_def)
  have s: "sample_events = [sample_events ! 0] @ sample_events ! 1 # [sample_events ! 2]"
    by (simp add: sample_events_def)
  show ?thesis
    using events_without_objects_are_skipped[OF n, where getTime = sample_time
        and before = "[sample_events ! 0]" and after = "[sample_events ! 2]"
        and defaultLocation = "Some origin" and detectionRadius = 1500 and ar = exact_arith] n s
    by (metis append_Cons append_Nil)
qed

section \<open>Marker clustering\<close>

lemma find_first_Some:
  "find_first P xs = Some i \<Longrightarrow> i < length xs \<and> P (xs ! i) \<and> (\<forall>j<i. \<not> P (xs ! j))"
proof (induction xs arbitrary: i)
  case Nil
  then show ?case by simp
next
  case (Cons x xs)
  show ?case
  proof (cases "P x")
    case True
    with Cons.prems show ?thesis by simp
  next
    case False
    with Cons.prems obtain k where k: "find_first P xs = Some k" "i = Suc k"
      by auto
    from Cons.IH[OF k(1)] False k(2) show ?thesis
      by (auto simp: nth_Cons split: nat.splits)
  qed
qed

lemma find_first_None: "find_first P xs = None \<Longrightarrow> \<forall>x\<in>set xs. \<not> P x"
  by (induction xs) (auto split: if_splits)

lemma mean_snoc:
  assumes "xs \<noteq> []"
  shows "mean xs + (x - mean xs) / real (length (xs @ [x])) = mean (xs @ [x])"
proof -
  have alg: "s / n + (x - s / n) / (n + 1) = (s + x) / (n + 1)" if "0 < n" for s n :: real
  proof -
    have n0: "n \<noteq> 0" and n1: "n + 1 \<noteq> 0" using that by auto
    have "(s / n + (x - s / n) / (n + 1)) * (n + 1) = s / n * (n + 1) + (x - s / n)"
      using n1 by (simp add: distrib_right)
    also have "s / n * (n + 1) = s + s / n"
      using n0 by (simp add: distrib_left)
    finally have "(s / n + (x - s / n) / (n + 1)) * (n + 1) = s + x"
      by simp
    then show ?thesis
      using n1 by (simp add: eq_divide_eq)
  qed
  have n: "0 < real (length xs)" using assms by simp
  show ?thesis
    using alg[OF n, of "sum_list xs"] by (simp add: mean_def add.commute)
qed

lemma member_coords_snoc:
  "getPrimaryCoordinates obj = Some p \<Longrightarrow>
   member_coords (c\<lparr>c_objects := c_objects c @ [obj]\<rparr>) = member_coords c @ [p]"
  by (simp add: member_coords_def List.map_filter_def)

lemma length_member_coords:
  "list_all (\<lambda>obj. getPrimaryCoordinates obj \<noteq> None) (c_objects c) \<Longrightarrow>
   length (member_coords c) = length (c_objects c)"
  unfolding member_coords_def List.map_filter_def list_all_iff
  by (induction "c_objects c" arbitrary: c) (auto simp: filter_id_conv)

lemma centred_join:
  assumes "centred c" "getPrimaryCoordinates obj = Some p"
  shows "centred (join_cluster c obj (lat p) (lng p))"
proof -
  let ?c' = "join_cluster c obj (lat p) (lng p)"
  have len: "length (member_coords c) = length (c_objects c)"
    using assms(1) by (simp add: centred_def length_member_coords)
  have ne: "member_coords c \<noteq> []"
    using assms(1) len by (auto simp: centred_def)
  have objs: "c_objects ?c' = c_objects c @ [obj]"
    by (simp add: join_cluster_def Let_def)
  have mc: "member_coords ?c' = member_coords c @ [p]"
    using assms(2) by (simp add: member_coords_def List.map_filter_def objs)
  have la: "c_lat ?c' = mean (map lat (member_coords c) @ [lat p])"
    using mean_snoc[of "map lat (member_coords c)" "lat p"] ne assms(1) len
    by (simp add: join_cluster_def Let_def centred_def)
  have lo: "c_lng ?c' = mean (map lng (member_coords c) @ [lng p])"
    using mean_snoc[of "map lng (member_coords c)" "lng p"] ne assms(1) len
    by (simp add: join_cluster_def Let_def centred_def)
  show ?thesis
    using assms la lo by (simp add: centred_def objs mc)
qed

lemma centred_start:
  "getPrimaryCoordinates obj = Some p \<Longrightarrow>
   centred \<lparr>c_lat = lat p, c_lng = lng p, c_objects = [obj]\<rparr>"
  by (simp add: centred_def member_coords_def List.map_filter_def mean_def)

lemma add_object_cases:
  assumes "getPrimaryCoordinates obj = Some coords"
  shows "(\<exists>i<length cs. near tolerance coords (cs ! i) \<and> (\<forall>j<i. \<not> near tolerance coords (cs ! j)) \<and>
            add_object tolerance cs obj = cs[i := join_cluster (cs ! i) obj (lat coords) (lng coords)]) \<or>
         ((\<forall>c\<in>set cs. \<not> near tolerance coords c) \<and>
            add_object tolerance cs obj = cs @ [\<lparr>c_lat = lat coords, c_lng = lng coords, c_objects = [obj]\<rparr>])"
proof (cases "find_first (near tolerance coords) cs")
  case None
  then show ?thesis
    using find_first_None[OF None] assms
    by (simp add: add_object_def near_def[abs_def])
next
  case (Some i)
  then show ?thesis
    using find_first_Some[OF Some] assms
    by (auto simp add: add_object_def near_def[abs_def])
qed

lemma centred_add_object:
  assumes "list_all centred cs"
  shows "list_all centred (add_object tolerance cs obj)"
proof (cases "getPrimaryCoordinates obj")
  case None
  then show ?thesis using assms by (simp add: add_object_def)
next
  case (Some coords)
  from add_object_cases[OF Some, of cs tolerance] show ?thesis
  proof (elim disjE exE conjE)
    fix i
    assume i: "i < length cs"
      and eq: "add_object tolerance cs obj = cs[i := join_cluster (cs ! i) obj (lat coords) (lng coords)]"
    have "centred (cs ! i)" using assms i by (simp add: list_all_length)
    then have "centred (join_cluster (cs ! i) obj (lat coords) (lng coords))"
      using Some by (rule centred_join)
    then show ?thesis
      using assms i unfolding eq list_all_iff by (auto dest!: subsetD[OF set_update_subset_insert])
  next
    assume "add_object tolerance cs obj = cs @ [\<lparr>c_lat = lat coords, c_lng = lng coords, c_objects = [obj]\<rparr>]"
    then show ?thesis using assms centred_start[OF Some] by simp
  qed
qed

lemma centred_pass: "list_all centred (cluster_pass tolerance items)"
proof -
  have "list_all centred cs \<Longrightarrow> list_all centred (foldl (add_object tolerance) cs items)" for cs
    by (induction items arbitrary: cs) (simp_all add: centred_add_object)
  then show ?thesis by (simp add: cluster_pass_def)
qed

lemma mean_perm: "mset xs = mset ys \<Longrightarrow> mean xs = mean ys"
  by (metis mean_def mset_eq_length sum_mset_sum_list)

lemma marker_coordinates:
  "getPrimaryCoordinates marker_a = Some \<lparr>lat = 0, lng = 0\<rparr>"
  "getPrimaryCoordinates marker_b = Some \<lparr>lat = 0, lng = 3 / 1000\<rparr>"
  "getPrimaryCoordinates marker_c = Some \<lparr>lat = 0, lng = 19 / 10000\<rparr>"
  "getPrimaryCoordinates marker_d = Some \<lparr>lat = 12 / 10000, lng = 16 / 10000\<rparr>"
  by (simp_all add: getPrimaryCoordinates_def marker_a_def marker_b_def marker_c_def marker_d_def
        get_prop_def nullish_def toOptionalNumber_def parse_defs)

text \<open>The distance of the clustering is the Euclidean distance of the plane of latitude
  and longitude in degrees.\<close>

lemma distanceBetween_euclidean:
  "distanceBetween lat1 lng1 lat2 lng2 = sqrt ((lat1 - lat2)\<^sup>2 + (lng1 - lng2)\<^sup>2)"
  by (simp add: distanceBetween_def Let_def power2_eq_square)

lemma distanceBetween_less:
  assumes "0 \<le> t"
  shows "(distanceBetween lat1 lng1 lat2 lng2 < t) = ((lat1 - lat2)\<^sup>2 + (lng1 - lng2)\<^sup>2 < t\<^sup>2)"
proof -
  have "sqrt (t\<^sup>2) = t"
    using assms by simp
  then show ?thesis
    unfolding distanceBetween_euclidean
    using real_sqrt_less_iff[of "(lat1 - lat2)\<^sup>2 + (lng1 - lng2)\<^sup>2" "t\<^sup>2"] by simp
qed

lemma distanceBetween_same_lat: "distanceBetween a x a y = \<bar>x - y\<bar>"
  by (simp add: distanceBetween_def)

lemma marker_d_distances:
  "\<not> distanceBetween 0 0 (12 / 10000) (16 / 10000) < 1 / 500"
  "distanceBetween 0 (3 / 1000) (12 / 10000) (16 / 10000) < 1 / 500"
  by (subst distanceBetween_less, simp, simp add: power2_eq_square)+

lemma pass_fine:
  "cluster_pass (1 / 500) [marker_a, marker_b] =
     [\<lparr>c_lat = 0, c_lng = 0, c_objects = [marker_a]\<rparr>,
      \<lparr>c_lat = 0, c_lng = 3 / 1000, c_objects = [marker_b]\<rparr>]"
  "cluster_pass (1 / 500) [marker_a, marker_b, marker_c] =
     [\<lparr>c_lat = 0, c_lng = 19 / 20000, c_objects = [marker_a, marker_c]\<rparr>,
      \<lparr>c_lat = 0, c_lng = 3 / 1000, c_objects = [marker_b]\<rparr>]"
  "cluster_pass (1 / 500) [marker_a, marker_b, marker_d] =
     [\<lparr>c_lat = 0, c_lng = 0, c_objects = [marker_a]\<rparr>,
      \<lparr>c_lat = 6 / 10000, c_lng = 23 / 10000, c_objects = [marker_b, marker_d]\<rparr>]"
  using marker_d_distances
  by (simp_all add: cluster_pass_def add_object_def marker_coordinates distanceBetween_same_lat
        join_cluster_def Let_def)

lemma pass_coarse:
  "cluster_pass (1 / 100) [marker_a, marker_b, marker_c] =
     [\<lparr>c_lat = 0, c_lng = 49 / 30000, c_objects = [marker_a, marker_b, marker_c]\<rparr>]"
  "cluster_pass (1 / 100) [marker_c, marker_b, marker_a] =
     [\<lparr>c_lat = 0, c_lng = 49 / 30000, c_objects = [marker_c, marker_b, marker_a]\<rparr>]"
  by (simp_all add: cluster_pass_def add_object_def marker_coordinates distanceBetween_same_lat
        join_cluster_def Let_def)

lemma cluster_pass_snoc:
  "cluster_pass tolerance (items @ [obj]) = add_object tolerance (cluster_pass tolerance items) obj"
  by (simp add: cluster_pass_def)

lemma getMarkerDescriptors_low_zoom:
  "zoom < 15 \<Longrightarrow> getMarkerDescriptors items zoom = map descriptor_of (cluster_pass (tolerance_of zoom) items)"
  by (cases items) (simp_all add: getMarkerDescriptors_def cluster_pass_def)

text \<open>
  Claim C3.  Below zoom 15 the objects with a resolvable coordinate are taken in input
  order; each joins the first cluster, in the order of creation, whose centroid is within
  the tolerance of the object, and starts a new cluster at its own coordinate when there
  is none.  A centroid is within the tolerance when the Euclidean distance of the plane of
  latitude and longitude in degrees, the square root of the sum of the squares of the two
  differences, is less than the tolerance.  The tolerance is 0.002 from zoom 13, 0.004
  from zoom 11 to 13, and 0.01 below zoom 11.
\<close>

theorem greedy_first_fit:
  assumes "zoom < 15" and "getPrimaryCoordinates obj = Some coords"
  shows "(13 \<le> zoom \<longrightarrow> tolerance_of zoom = 0.002) \<and>
     (11 \<le> zoom \<and> zoom < 13 \<longrightarrow> tolerance_of zoom = 0.004) \<and>
     (zoom < 11 \<longrightarrow> tolerance_of zoom = 0.01) \<and>
     (\<forall>item. near (tolerance_of zoom) coords item =
        (sqrt ((c_lat item - lat coords)\<^sup>2 + (c_lng item - lng coords)\<^sup>2) < tolerance_of zoom)) \<and>
     getMarkerDescriptors (items @ [obj]) zoom
       = map descriptor_of (cluster_pass (tolerance_of zoom) (items @ [obj])) \<and>
     ((\<exists>i<length (cluster_pass (tolerance_of zoom) items).
         near (tolerance_of zoom) coords (cluster_pass (tolerance_of zoom) items ! i) \<and>
         (\<forall>j<i. \<not> near (tolerance_of zoom) coords (cluster_pass (tolerance_of zoom) items ! j)) \<and>
         cluster_pass (tolerance_of zoom) (items @ [obj])
           = (cluster_pass (tolerance_of zoom) items)
               [i := join_cluster (cluster_pass (tolerance_of zoom) items ! i) obj (lat coords) (lng coords)]) \<or>
      ((\<forall>c\<in>set (cluster_pass (tolerance_of zoom) items). \<not> near (tolerance_of zoom) coords c) \<and>
         cluster_pass (tolerance_of zoom) (items @ [obj])
           = cluster_pass (tolerance_of zoom) items
               @ [\<lparr>c_lat = lat coords, c_lng = lng coords, c_objects = [obj]\<rparr>]))"
proof (intro conjI)
  show "13 \<le> zoom \<longrightarrow> tolerance_of zoom = 0.002"
    and "11 \<le> zoom \<and> zoom < 13 \<longrightarrow> tolerance_of zoom = 0.004"
    and "zoom < 11 \<longrightarrow> tolerance_of zoom = 0.01"
    by (simp_all add: tolerance_of_def)
  show "\<forall>item. near (tolerance_of zoom) coords item =
        (sqrt ((c_lat item - lat coords)\<^sup>2 + (c_lng item - lng coords)\<^sup>2) < tolerance_of zoom)"
    by (simp add: near_def distanceBetween_euclidean)
  show "getMarkerDescriptors (items @ [obj]) zoom
          = map descriptor_of (cluster_pass (tolerance_of zoom) (items @ [obj]))"
    using assms(1) by (rule getMarkerDescriptors_low_zoom)
  show "(\<exists>i<length (cluster_pass (tolerance_of zoom) items).
         near (tolerance_of zoom) coords (cluster_pass (tolerance_of zoom) items ! i) \<and>
         (\<forall>j<i. \<not> near (tolerance_of zoom) coords (cluster_pass (tolerance_of zoom) items ! j)) \<and>
         cluster_pass (tolerance_of zoom) (items @ [obj])
           = (cluster_pass (tolerance_of zoom) items)
               [i := join_cluster (cluster_pass (tolerance_of zoom) items ! i) obj (lat coords) (lng coords)]) \<or>
      ((\<forall>c\<in>set (cluster_pass (tolerance_of zoom) items). \<not> near (tolerance_of zoom) coords c) \<and>
         cluster_pass (tolerance_of zoom) (items @ [obj])
           = cluster_pass (tolerance_of zoom) items
               @ [\<lparr>c_lat = lat coords, c_lng = lng coords, c_objects = [obj]\<rparr>])"
    unfolding cluster_pass_snoc using assms(2) by (rule add_object_cases)
qed

text \<open>
  At zoom 13, after a cluster at (0, 0) and a cluster at (0, 0.003): the marker at
  (0, 0.0019) is within the tolerance of both clusters and joins the first; the marker at
  (0.0012, 0.0016) is at the distance 0.002 from the first cluster, which is not less than
  the tolerance, and at a distance below 0.002 from the second, which it joins.
\<close>

theorem greedy_first_fit_witness:
  "(13::real) < 15 \<and>
   getPrimaryCoordinates marker_c = Some \<lparr>lat = 0, lng = 19 / 10000\<rparr> \<and>
   getPrimaryCoordinates marker_d = Some \<lparr>lat = 12 / 10000, lng = 16 / 10000\<rparr> \<and>
   tolerance_of 13 = 1 / 500 \<and>
   cluster_pass (tolerance_of 13) [marker_a, marker_b] =
     [\<lparr>c_lat = 0, c_lng = 0, c_objects = [marker_a]\<rparr>,
      \<lparr>c_lat = 0, c_lng = 3 / 1000, c_objects = [marker_b]\<rparr>] \<and>
   near (tolerance_of 13) \<lparr>lat = 0, lng = 19 / 10000\<rparr> \<lparr>c_lat = 0, c_lng = 0, c_objects = [marker_a]\<rparr> \<and>
   near (tolerance_of 13) \<lparr>lat = 0, lng = 19 / 10000\<rparr> \<lparr>c_lat = 0, c_lng = 3 / 1000, c_objects = [marker_b]\<rparr> \<and>
   getMarkerDescriptors [marker_a, marker_b, marker_c] 13 =
     [ClusterMarker 0 (19 / 20000) [marker_a, marker_c], Single 0 (3 / 1000) marker_b] \<and>
   sqrt ((0 - 12 / 10000)\<^sup>2 + (0 - 16 / 10000)\<^sup>2) = (1 / 500 :: real) \<and>
   \<not> near (tolerance_of 13) \<lparr>lat = 12 / 10000, lng = 16 / 10000\<rparr>
       \<lparr>c_lat = 0, c_lng = 0, c_objects = [marker_a]\<rparr> \<and>
   near (tolerance_of 13) \<lparr>lat = 12 / 10000, lng = 16 / 10000\<rparr>
       \<lparr>c_lat = 0, c_lng = 3 / 1000, c_objects = [marker_b]\<rparr> \<and>
   getMarkerDescriptors [marker_a, marker_b, marker_d] 13 =
     [Single 0 0 marker_a, ClusterMarker (6 / 10000) (23 / 10000) [marker_b, marker_d]]"
proof -
  have z: "(13::real) < 15" by simp
  have t: "tolerance_of 13 = 1 / 500" by (simp add: tolerance_of_def)
  note c = greedy_first_fit[OF z marker_coordinates(3), of "[marker_a, marker_b]"]
  note d = greedy_first_fit[OF z marker_coordinates(4), of "[marker_a, marker_b]"]
  have sq: "sqrt ((0 - 12 / 10000)\<^sup>2 + (0 - 16 / 10000)\<^sup>2) = (1 / 500 :: real)"
    by (rule real_sqrt_unique) (simp_all add: power2_eq_square)
  have sq': "sqrt ((0 - 12 / 10000)\<^sup>2 + (3 / 1000 - 16 / 10000)\<^sup>2) < (1 / 500 :: real)"
    by (rule real_less_lsqrt) (simp_all add: power2_eq_square)
  have nc: "near (tolerance_of 13) \<lparr>lat = 0, lng = 19 / 10000\<rparr> \<lparr>c_lat = 0, c_lng = 0, c_objects = [marker_a]\<rparr>"
    "near (tolerance_of 13) \<lparr>lat = 0, lng = 19 / 10000\<rparr> \<lparr>c_lat = 0, c_lng = 3 / 1000, c_objects = [marker_b]\<rparr>"
    unfolding c[THEN conjunct2, THEN conjunct2, THEN conjunct2, THEN conjunct1, rule_format]
    by (simp_all add: t)
  have nd: "\<not> near (tolerance_of 13) \<lparr>lat = 12 / 10000, lng = 16 / 10000\<rparr>
       \<lparr>c_lat = 0, c_lng = 0, c_objects = [marker_a]\<rparr>"
    "near (tolerance_of 13) \<lparr>lat = 12 / 10000, lng = 16 / 10000\<rparr>
       \<lparr>c_lat = 0, c_lng = 3 / 1000, c_objects = [marker_b]\<rparr>"
    unfolding d[THEN conjunct2, THEN conjunct2, THEN conjunct2, THEN conjunct1, rule_format]
    using sq sq' by (simp_all add: t)
  have "getMarkerDescriptors ([marker_a, marker_b] @ [marker_c]) 13
          = map descriptor_of (cluster_pass (tolerance_of 13) ([marker_a, marker_b] @ [marker_c]))"
    by (rule c[THEN conjunct2, THEN conjunct2, THEN conjunct2, THEN conjunct2, THEN conjunct1])
  then have mc: "getMarkerDescriptors [marker_a, marker_b, marker_c] 13 =
      [ClusterMarker 0 (19 / 20000) [marker_a, marker_c], Single 0 (3 / 1000) marker_b]"
    by (simp add: t pass_fine descriptor_of_def)
  have "getMarkerDescriptors ([marker_a, marker_b] @ [marker_d]) 13
          = map descriptor_of (cluster_pass (tolerance_of 13) ([marker_a, marker_b] @ [marker_d]))"
    by (rule d[THEN conjunct2, THEN conjunct2, THEN conjunct2, THEN conjunct2, THEN conjunct1])
  then have md: "getMarkerDescriptors [marker_a, marker_b, marker_d] 13 =
      [Single 0 0 marker_a, ClusterMarker (6 / 10000) (23 / 10000) [marker_b, marker_d]]"
    by (simp add: t pass_fine descriptor_of_def)
  have p: "cluster_pass (tolerance_of 13) [marker_a, marker_b] =
     [\<lparr>c_lat = 0, c_lng = 0, c_objects = [marker_a]\<rparr>,
      \<lparr>c_lat = 0, c_lng = 3 / 1000, c_objects = [marker_b]\<rparr>]"
    by (simp add: t pass_fine(1))
  show ?thesis
    by (intro conjI) (rule z marker_coordinates(3) marker_coordinates(4) t p nc mc sq nd md)+
qed

lemma mset_member_coords:
  "mset (c_objects c) = mset (c_objects c') \<Longrightarrow> mset (member_coords c) = mset (member_coords c')"
proof -
  assume "mset (c_objects c) = mset (c_objects c')"
  then have "mset (filter (\<lambda>x. getPrimaryCoordinates x \<noteq> None) (c_objects c))
      = mset (filter (\<lambda>x. getPrimaryCoordinates x \<noteq> None) (c_objects c'))"
    by (simp only: mset_filter)
  then have "mset (map (the \<circ> getPrimaryCoordinates) (filter (\<lambda>x. getPrimaryCoordinates x \<noteq> None) (c_objects c)))
      = mset (map (the \<circ> getPrimaryCoordinates) (filter (\<lambda>x. getPrimaryCoordinates x \<noteq> None) (c_objects c')))"
    by (simp only: mset_map)
  then show ?thesis
    by (simp only: member_coords_def List.map_filter_def)
qed

lemma tracks_join:
  assumes "tracks c ps"
  shows "tracks (join_cluster c obj (lat p) (lng p)) (ps @ [p])"
proof -
  have ne: "map lat ps \<noteq> []" "map lng ps \<noteq> []"
    using assms by (simp_all add: tracks_def)
  have len: "length (c_objects c @ [obj]) = length (map lat ps @ [lat p])"
    "length (c_objects c @ [obj]) = length (map lng ps @ [lng p])"
    using assms by (simp_all add: tracks_def)
  have "c_lat (join_cluster c obj (lat p) (lng p)) = mean (map lat ps @ [lat p])"
    using mean_snoc[OF ne(1), of "lat p"] assms len(1)
    by (simp only: join_cluster_def Let_def tracks_def Cluster.simps)
  moreover have "c_lng (join_cluster c obj (lat p) (lng p)) = mean (map lng ps @ [lng p])"
    using mean_snoc[OF ne(2), of "lng p"] assms len(2)
    by (simp only: join_cluster_def Let_def tracks_def Cluster.simps)
  moreover have "length (c_objects (join_cluster c obj (lat p) (lng p))) = length (ps @ [p])"
    using assms by (simp add: join_cluster_def Let_def tracks_def)
  ultimately show ?thesis
    by (simp add: tracks_def)
qed

lemma tracks_start: "tracks (start_cluster obj p) [p]"
  by (simp add: tracks_def start_cluster_def mean_def)

lemma tracks_join_all: "tracks c ps \<Longrightarrow> tracks (join_all c joins) (ps @ map snd joins)"
proof (induction joins arbitrary: c ps)
  case Nil
  then show ?case by (simp add: join_all_def)
next
  case (Cons j joins)
  obtain obj p where j: "j = (obj, p)" by (cases j)
  have "tracks (join_cluster c obj (lat p) (lng p)) (ps @ [p])"
    using Cons.prems by (rule tracks_join)
  from Cons.IH[OF this] show ?case
    by (simp add: join_all_def j)
qed

lemma join_sequence_mean:
  "c_lat (join_all (start_cluster obj0 p0) joins) = mean (map lat (p0 # map snd joins)) \<and>
   c_lng (join_all (start_cluster obj0 p0) joins) = mean (map lng (p0 # map snd joins))"
  using tracks_join_all[OF tracks_start, of obj0 p0 joins] by (simp add: tracks_def)

text \<open>
  Claim C4.  After any sequence of joins into one cluster, the centroid kept by the
  incremental update is the arithmetic mean of the coordinates of the members, and two
  sequences of joins with the same points in another order end with the same centroid.
  The same holds inside every clustering pass: each cluster's centroid is the mean of the
  coordinates of its members, and two clusters with the same members have the same
  centroid.
\<close>

theorem cluster_centroid_is_mean:
  "c_lat (join_all (start_cluster obj0 p0) joins) = mean (map lat (p0 # map snd joins)) \<and>
   c_lng (join_all (start_cluster obj0 p0) joins) = mean (map lng (p0 # map snd joins)) \<and>
   (mset (p0 # map snd joins) = mset (p0' # map snd joins') \<longrightarrow>
      c_lat (join_all (start_cluster obj0 p0) joins)
        = c_lat (join_all (start_cluster obj0' p0') joins') \<and>
      c_lng (join_all (start_cluster obj0 p0) joins)
        = c_lng (join_all (start_cluster obj0' p0') joins')) \<and>
   (\<forall>c \<in> set (cluster_pass tolerance items).
      c_objects c \<noteq> [] \<and>
      length (member_coords c) = length (c_objects c) \<and>
      c_lat c = mean (map lat (member_coords c)) \<and>
      c_lng c = mean (map lng (member_coords c))) \<and>
   (\<forall>c \<in> set (cluster_pass tolerance items). \<forall>c' \<in> set (cluster_pass tolerance' items').
      mset (c_objects c) = mset (c_objects c') \<longrightarrow> c_lat c = c_lat c' \<and> c_lng c = c_lng c')"
proof -
  have inv: "centred c" if "c \<in> set (cluster_pass tol xs)" for c tol xs
    using centred_pass[of tol xs] that by (simp add: list_all_iff)
  have one: "c_objects c \<noteq> [] \<and> length (member_coords c) = length (c_objects c) \<and>
      c_lat c = mean (map lat (member_coords c)) \<and> c_lng c = mean (map lng (member_coords c))"
    if "centred c" for c
    using that by (simp add: centred_def length_member_coords)
  have two: "c_lat c = c_lat c' \<and> c_lng c = c_lng c'"
    if "centred c" "centred c'" "mset (c_objects c) = mset (c_objects c')" for c c'
  proof -
    have m: "mset (member_coords c) = mset (member_coords c')"
      using that(3) by (rule mset_member_coords)
    then have "mset (map lat (member_coords c)) = mset (map lat (member_coords c'))"
      "mset (map lng (member_coords c)) = mset (map lng (member_coords c'))"
      by simp_all
    then have "mean (map lat (member_coords c)) = mean (map lat (member_coords c'))"
      "mean (map lng (member_coords c)) = mean (map lng (member_coords c'))"
      by (simp_all add: mean_perm)
    then show ?thesis using that(1,2) by (simp add: centred_def)
  qed
  have seq: "c_lat (join_all (start_cluster obj p) js) = mean (map lat (p # map snd js))"
    "c_lng (join_all (start_cluster obj p) js) = mean (map lng (p # map snd js))" for obj p js
    using join_sequence_mean[of obj p js] by simp_all
  show ?thesis
  proof (intro conjI ballI impI)
    show "c_lat (join_all (start_cluster obj0 p0) joins) = mean (map lat (p0 # map snd joins))"
      "c_lng (join_all (start_cluster obj0 p0) joins) = mean (map lng (p0 # map snd joins))"
      by (rule seq)+
  next
    assume "mset (p0 # map snd joins) = mset (p0' # map snd joins')"
    then have m: "mset (map lat (p0 # map snd joins)) = mset (map lat (p0' # map snd joins'))"
      "mset (map lng (p0 # map snd joins)) = mset (map lng (p0' # map snd joins'))"
      by (simp_all only: mset_map)
    have "mean (map lat (p0 # map snd joins)) = mean (map lat (p0' # map snd joins'))"
      using m(1) by (rule mean_perm)
    moreover have "mean (map lng (p0 # map snd joins)) = mean (map lng (p0' # map snd joins'))"
      using m(2) by (rule mean_perm)
    ultimately show "c_lat (join_all (start_cluster obj0 p0) joins)
        = c_lat (join_all (start_cluster obj0' p0') joins')"
      "c_lng (join_all (start_cluster obj0 p0) joins)
        = c_lng (join_all (start_cluster obj0' p0') joins')"
      by (simp_all only: seq)
  next
    fix c assume "c \<in> set (cluster_pass tolerance items)"
    then have "centred c" by (rule inv)
    then show "c_objects c \<noteq> []" "length (member_coords c) = length (c_objects c)"
      "c_lat c = mean (map lat (member_coords c))" "c_lng c = mean (map lng (member_coords c))"
      using one by simp_all
  next
    fix c c'
    assume "c \<in> set (cluster_pass tolerance items)" "c' \<in> set (cluster_pass tolerance' items')"
      and "mset (c_objects c) = mset (c_objects c')"
    then show "c_lat c = c_lat c'" "c_lng c = c_lng c'"
      using inv two by simp_all
  qed
qed

text \<open>The three markers joined in one order and in the reverse order.\<close>

theorem cluster_centroid_is_mean_witness:
  "\<lparr>c_lat = 0, c_lng = 49 / 30000, c_objects = [marker_a, marker_b, marker_c]\<rparr>
     \<in> set (cluster_pass (1 / 100) [marker_a, marker_b, marker_c]) \<and>
   \<lparr>c_lat = 0, c_lng = 49 / 30000, c_objects = [marker_c, marker_b, marker_a]\<rparr>
     \<in> set (cluster_pass (1 / 100) [marker_c, marker_b, marker_a]) \<and>
   mset [marker_a, marker_b, marker_c] = mset [marker_c, marker_b, marker_a] \<and>
   mean (map lng (member_coords
      \<lparr>c_lat = 0, c_lng = 49 / 30000, c_objects = [marker_a, marker_b, marker_c]\<rparr>)) = 49 / 30000 \<and>
   c_lng (join_all (start_cluster marker_c \<lparr>lat = 0, lng = 19 / 10000\<rparr>)
            [(marker_b, \<lparr>lat = 0, lng = 3 / 1000\<rparr>), (marker_a, \<lparr>lat = 0, lng = 0\<rparr>)])
     = 49 / 30000"
proof -
  let ?c = "\<lparr>c_lat = 0, c_lng = 49 / 30000, c_objects = [marker_a, marker_b, marker_c]\<rparr>"
  let ?c' = "\<lparr>c_lat = 0, c_lng = 49 / 30000, c_objects = [marker_c, marker_b, marker_a]\<rparr>"
  let ?joins = "[(marker_b, \<lparr>lat = 0, lng = 3 / 1000\<rparr>), (marker_a, \<lparr>lat = 0, lng = 0\<rparr>)]"
  have m: "?c \<in> set (cluster_pass (1 / 100) [marker_a, marker_b, marker_c])"
    "?c' \<in> set (cluster_pass (1 / 100) [marker_c, marker_b, marker_a])"
    by (simp_all add: pass_coarse)
  have p: "mset [marker_a, marker_b, marker_c] = mset [marker_c, marker_b, marker_a]"
    by simp
  note t = cluster_centroid_is_mean[of marker_c "\<lparr>lat = 0, lng = 19 / 10000\<rparr>" ?joins
      _ _ _ "1 / 100" "[marker_a, marker_b, marker_c]"]
  have "\<forall>c \<in> set (cluster_pass (1 / 100) [marker_a, marker_b, marker_c]).
      c_objects c \<noteq> [] \<and> length (member_coords c) = length (c_objects c) \<and>
      c_lat c = mean (map lat (member_coords c)) \<and> c_lng c = mean (map lng (member_coords c))"
    by (rule t[THEN conjunct2, THEN conjunct2, THEN conjunct2, THEN conjunct1])
  then have "c_lng ?c = mean (map lng (member_coords ?c))"
    using m(1) by blast
  then have a: "mean (map lng (member_coords ?c)) = 49 / 30000"
    by simp
  have "c_lng (join_all (start_cluster marker_c \<lparr>lat = 0, lng = 19 / 10000\<rparr>) ?joins)
      = mean (map lng (\<lparr>lat = 0, lng = 19 / 10000\<rparr> # map snd ?joins))"
    by (rule t[THEN conjunct2, THEN conjunct1])
  also have "\<dots> = 49 / 30000"
    by (simp add: mean_def)
  finally have b: "c_lng (join_all (start_cluster marker_c \<lparr>lat = 0, lng = 19 / 10000\<rparr>) ?joins)
      = 49 / 30000" .
  show ?thesis
    by (intro conjI) (rule m p a b)+
qed

section \<open>Geofence ring\<close>

lemma ring_from_upt:
  assumes "steps = real n"
  shows "i \<le> n + 1 \<Longrightarrow>
    ring_from center radiusMeters steps i = map (ring_point center radiusMeters steps) [i..<n + 1]"
proof (induction "n + 1 - i" arbitrary: i)
  case 0
  then have "i = n + 1" by simp
  then show ?case
    using assms by (subst ring_from.simps) simp
next
  case (Suc k)
  then have i: "i \<le> n" by simp
  then have "ring_from center radiusMeters steps (Suc i)
      = map (ring_point center radiusMeters steps) [Suc i..<n + 1]"
    using Suc by (intro Suc.hyps(1)) simp_all
  moreover have "[i..<n + 1] = i # [Suc i..<n + 1]"
    using i by (simp add: upt_conv_Cons)
  ultimately show ?case
    using i assms by (subst ring_from.simps) simp
qed

lemma ring_point_regular:
  assumes "steps \<noteq> 0" "cos ((lat center * pi) / 180) \<noteq> 0"
  shows "ring_point center radiusMeters steps i =
     (Finite (lng center + planar_dx_deg radiusMeters steps i * (1 / cos ((lat center * pi) / 180))),
      Finite (lat center + planar_dy_deg radiusMeters steps i))"
  using assms
  by (simp add: ring_point_def Let_def js_div_def js_add_def planar_dx_deg_def planar_dy_deg_def)

text \<open>The planar offsets lie on the circle of the radius, taken as an arc of the earth in
  degrees.\<close>

lemma planar_offsets_on_circle:
  "(planar_dx_deg radiusMeters steps i)\<^sup>2 + (planar_dy_deg radiusMeters steps i)\<^sup>2
     = (radiusMeters / EARTH_RADIUS_METERS * 180 / pi)\<^sup>2"
proof -
  define k where "k = radiusMeters / EARTH_RADIUS_METERS * 180 / pi"
  define t where "t = (real i / steps) * 2 * pi"
  have "planar_dx_deg radiusMeters steps i = k * cos t" "planar_dy_deg radiusMeters steps i = k * sin t"
    by (simp_all add: planar_dx_deg_def planar_dy_deg_def k_def t_def)
  then have "(planar_dx_deg radiusMeters steps i)\<^sup>2 + (planar_dy_deg radiusMeters steps i)\<^sup>2
      = k\<^sup>2 * ((cos t)\<^sup>2 + (sin t)\<^sup>2)"
    by (simp only: power_mult_distrib distrib_left)
  also have "\<dots> = k\<^sup>2"
    by simp
  finally show ?thesis
    by (simp only: k_def)
qed

text \<open>
  Claim C8.  For every centre, every radius and every step count, a natural number, the
  ring has one point more than steps, and its first and last points are equal.  With at
  least one step and a centre where the cosine of the latitude is not zero, the \<open>i\<close>-th
  point is the centre moved in latitude by the planar offset, and in longitude by the
  planar offset times the inverse of the cosine of the latitude of the centre; the planar
  offsets are those of a circle.  All numbers are exact reals.
\<close>

theorem ring_closed_and_scaled:
  assumes "steps = real n"
  shows "length (createCirclePolygon center radiusMeters steps) = n + 1 \<and>
     hd (createCirclePolygon center radiusMeters steps)
       = last (createCirclePolygon center radiusMeters steps) \<and>
     (1 \<le> n \<and> cos ((lat center * pi) / 180) \<noteq> 0 \<longrightarrow>
        (\<forall>i\<le>n. createCirclePolygon center radiusMeters steps ! i =
           (Finite (lng center
                      + planar_dx_deg radiusMeters steps i * (1 / cos ((lat center * pi) / 180))),
            Finite (lat center + planar_dy_deg radiusMeters steps i)) \<and>
           (planar_dx_deg radiusMeters steps i)\<^sup>2 + (planar_dy_deg radiusMeters steps i)\<^sup>2
             = (radiusMeters / EARTH_RADIUS_METERS * 180 / pi)\<^sup>2))"
proof -
  let ?ring = "createCirclePolygon center radiusMeters steps"
  have ring: "?ring = map (ring_point center radiusMeters steps) [0..<n + 1]"
    using ring_from_upt[OF assms, of 0] by (simp add: createCirclePolygon_def)
  have len: "length ?ring = n + 1"
    by (simp add: ring)
  have nth: "?ring ! i = ring_point center radiusMeters steps i" if "i \<le> n" for i
    using that unfolding ring by (simp del: upt_Suc add: nth_map_upt)
  have ne: "?ring \<noteq> []"
    using len by auto
  have "hd ?ring = ?ring ! 0"
    using ne by (rule hd_conv_nth)
  moreover have "last ?ring = ?ring ! n"
    using last_conv_nth[OF ne] len by simp
  moreover have "ring_point center radiusMeters steps 0 = ring_point center radiusMeters steps n"
    using assms by (cases "n = 0") (simp_all add: ring_point_def Let_def)
  ultimately have closed: "hd ?ring = last ?ring"
    using nth[of 0] nth[of n] by simp
  have pts: "?ring ! i =
        (Finite (lng center
                   + planar_dx_deg radiusMeters steps i * (1 / cos ((lat center * pi) / 180))),
         Finite (lat center + planar_dy_deg radiusMeters steps i))"
    if "1 \<le> n" "cos ((lat center * pi) / 180) \<noteq> 0" "i \<le> n" for i
  proof -
    have "steps \<noteq> 0" using assms that(1) by simp
    then show ?thesis
      using nth[OF that(3)] ring_point_regular[OF _ that(2)] by simp
  qed
  show ?thesis
    using len closed pts planar_offsets_on_circle by blast
qed

text \<open>The ring of 64 steps and 1000 metres around the centre (60, 10), where the inverse
  of the cosine is 2: the first point lies east of the centre by twice the planar offset,
  and the point of index 16 lies north of it.\<close>

theorem ring_closed_and_scaled_witness:
  "(64::real) = real (64::nat) \<and> (1::nat) \<le> 64 \<and>
   cos ((lat \<lparr>lat = 60, lng = 10\<rparr> * pi) / 180) = 1 / 2 \<and>
   length (createCirclePolygon \<lparr>lat = 60, lng = 10\<rparr> 1000 64) = 65 \<and>
   hd (createCirclePolygon \<lparr>lat = 60, lng = 10\<rparr> 1000 64)
     = last (createCirclePolygon \<lparr>lat = 60, lng = 10\<rparr> 1000 64) \<and>
   createCirclePolygon \<lparr>lat = 60, lng = 10\<rparr> 1000 64 ! 0 =
     (Finite (10 + 180 / (6371 * pi) * 2), Finite 60) \<and>
   createCirclePolygon \<lparr>lat = 60, lng = 10\<rparr> 1000 64 ! 16 =
     (Finite 10, Finite (60 + 180 / (6371 * pi)))"
proof -
  let ?c = "\<lparr>lat = 60, lng = 10\<rparr>"
  have a: "(64::real) = real (64::nat)" by simp
  have b: "(1::nat) \<le> 64" by simp
  have "(lat ?c * pi) / 180 = pi / 3" by simp
  then have c: "cos ((lat ?c * pi) / 180) = 1 / 2"
    by (simp only: cos_60)
  then have c0: "cos ((lat ?c * pi) / 180) \<noteq> 0" by simp
  note t = ring_closed_and_scaled[OF a, of ?c 1000]
  have len: "length (createCirclePolygon ?c 1000 64) = 65"
    using t by simp
  have closed: "hd (createCirclePolygon ?c 1000 64) = last (createCirclePolygon ?c 1000 64)"
    using t by (rule conjunct2[THEN conjunct1])
  have pts: "createCirclePolygon ?c 1000 64 ! i =
      (Finite (lng ?c + planar_dx_deg 1000 64 i * (1 / cos ((lat ?c * pi) / 180))),
       Finite (lat ?c + planar_dy_deg 1000 64 i))" if "i \<le> 64" for i
    using t b c0 that by blast
  have q: "real 16 / 64 * 2 * pi = pi / 2" by simp
  have o: "planar_dx_deg 1000 64 0 = 180 / (6371 * pi)" "planar_dy_deg 1000 64 0 = 0"
    "planar_dx_deg 1000 64 16 = 0" "planar_dy_deg 1000 64 16 = 180 / (6371 * pi)"
    unfolding planar_dx_deg_def planar_dy_deg_def q
    by (simp_all add: EARTH_RADIUS_METERS_def)
  have p0: "createCirclePolygon ?c 1000 64 ! 0 = (Finite (10 + 180 / (6371 * pi) * 2), Finite 60)"
    unfolding pts[of 0, simplified] o by (simp add: cos_60)
  have p16: "createCirclePolygon ?c 1000 64 ! 16 = (Finite 10, Finite (60 + 180 / (6371 * pi)))"
    unfolding pts[of 16, simplified] o by (simp add: cos_60)
  show ?thesis
    by (intro conjI) (rule a b c len closed p0 p16)+
qed

section \<open>Coordinate resolution\<close>

lemma toValidNumber_numeric: "toValidNumber v = numeric v"
  by (simp add: toValidNumber_def numeric_def)

lemma toOptionalNumber_numeric: "toOptionalNumber v = numeric v"
  by (simp add: toOptionalNumber_def numeric_def)

lemma numeric_iff:
  "(numeric v = Some r) = (v = JNum (Finite r) \<or> (\<exists>s. v = JStr s \<and> parseFloat s = Finite r))"
  by (cases v) (auto simp: numeric_def split: jsnum.splits)

lemma parseFloat_of_non_numbers:
  "parseFloat ''undefined'' = NaN"
  "parseFloat ''null'' = NaN"
  "parseFloat ''true'' = NaN"
  "parseFloat ''false'' = NaN"
  "parseFloat ''[object Object]'' = NaN"
  by (simp_all add: parse_defs)

lemma numberOrParse_numeric: "(numberOrParse v = Finite r) = (numeric v = Some r)"
  by (cases v)
     (auto simp: numeric_def numberOrParse_def parseFloat_of_non_numbers split: jsnum.splits)

text \<open>A block that is not an object has no number under any key, so the test for a
  missing block changes nothing.\<close>

lemma first_numeric_map_filter:
  "first_numeric source keys =
     (case List.map_filter numeric (map (get_member source) keys) of [] \<Rightarrow> None | r # _ \<Rightarrow> Some r)"
  by (induction keys) (simp_all add: map_filter_simps toValidNumber_numeric split: option.splits)

lemma first_numeric_not_object:
  "\<not> truthy source \<Longrightarrow> first_numeric source keys = None"
  by (induction keys) (auto simp: truthy_def get_member_def toValidNumber_def split: jsval.splits)

lemma extractFromSource_first_number:
  "extractFromSource source keys = first_number (map (get_member source) keys)"
  by (simp add: extractFromSource_def first_number_def first_numeric_not_object
        first_numeric_map_filter[symmetric])

lemma first_number_append:
  "first_number (xs @ ys) = (case first_number xs of None \<Rightarrow> first_number ys | Some r \<Rightarrow> Some r)"
  by (simp add: first_number_def map_filter_append split: list.splits)

lemma extractCoordinate_candidates:
  "extractCoordinate obj keys = first_number (candidates obj keys)"
proof -
  have direct: "map (get_member (JObj obj)) keys = map (get_prop obj) keys"
    by (simp add: get_member_def)
  show ?thesis
    by (simp add: extractCoordinate_def orElse_def extractFromSource_first_number direct
          candidates_def first_number_append split: option.splits)
qed

lemma first_present_nullish:
  "first_present obj [a, b] = nullish (get_prop obj a) (nullish (get_prop obj b) JNull)"
  "first_present obj [a, b, c] =
     nullish (get_prop obj a) (nullish (get_prop obj b) (nullish (get_prop obj c) JNull))"
  by (auto simp: first_present_def nullish_def)

lemma getPrimaryCoordinates_first_present:
  "getPrimaryCoordinates obj =
     (case numeric (first_present obj [''lat'', ''latitude'']) of
        None \<Rightarrow> None
      | Some a \<Rightarrow>
          (case numeric (first_present obj [''lng'', ''long'', ''lon'']) of
             None \<Rightarrow> None
           | Some b \<Rightarrow> Some \<lparr>lat = a, lng = b\<rparr>))"
  unfolding first_present_nullish
  by (simp add: getPrimaryCoordinates_def Let_def toOptionalNumber_numeric)

lemma reading_iff:
  "(reading ar p r obj \<noteq> None) =
     (\<exists>la lo. numeric (get_prop obj ''lat'') = Some la \<and> numeric (get_prop obj ''lng'') = Some lo \<and>
        \<not> js_gt (calculateDistanceMeters ar p \<lparr>lat = la, lng = lo\<rparr>) r)"
proof (cases "numberOrParse (get_prop obj ''lat'')")
  case (Finite la)
  note la = this
  show ?thesis
  proof (cases "numberOrParse (get_prop obj ''lng'')")
    case (Finite lo)
    have "numeric (get_prop obj ''lat'') = Some la" "numeric (get_prop obj ''lng'') = Some lo"
      using la Finite by (simp_all add: numberOrParse_numeric[symmetric])
    then show ?thesis
      using la Finite by (simp add: reading_def Let_def)
  qed (use la in \<open>auto simp: reading_def numberOrParse_numeric[symmetric]\<close>)
qed (auto simp: reading_def numberOrParse_numeric[symmetric])

subsection \<open>The objects behind the markers\<close>

lemma marker_objects_descriptor: "marker_objects (descriptor_of c) = c_objects c"
proof (cases "c_objects c")
  case Nil
  then show ?thesis by (simp add: marker_objects_def descriptor_of_def)
next
  case (Cons x xs)
  then show ?thesis by (cases xs) (simp_all add: marker_objects_def descriptor_of_def)
qed

lemma set_concat_update:
  assumes "i < length xs"
  shows "set (concat (map f (xs[i := y]))) \<union> set (f (xs ! i)) = set (concat (map f xs)) \<union> set (f y)"
proof -
  have a: "xs[i := y] = take i xs @ y # drop (Suc i) xs"
    using assms by (rule upd_conv_take_nth_drop)
  have b: "xs = take i xs @ xs ! i # drop (Suc i) xs"
    using assms by (rule id_take_nth_drop)
  have "set (concat (map f xs)) = set (concat (map f (take i xs @ xs ! i # drop (Suc i) xs)))"
    by (rule arg_cong[where f = "\<lambda>l. set (concat (map f l))", OF b])
  also have "\<dots> =
      set (concat (map f (take i xs))) \<union> set (f (xs ! i)) \<union> set (concat (map f (drop (Suc i) xs)))"
    by (simp add: Un_assoc)
  finally have c: "set (concat (map f xs)) =
      set (concat (map f (take i xs))) \<union> set (f (xs ! i)) \<union> set (concat (map f (drop (Suc i) xs)))" .
  have "set (concat (map f (xs[i := y]))) = set (concat (map f (take i xs @ y # drop (Suc i) xs)))"
    by (rule arg_cong[where f = "\<lambda>l. set (concat (map f l))", OF a])
  also have "\<dots> =
      set (concat (map f (take i xs))) \<union> set (f y) \<union> set (concat (map f (drop (Suc i) xs)))"
    by (simp add: Un_assoc)
  finally have d: "set (concat (map f (xs[i := y]))) =
      set (concat (map f (take i xs))) \<union> set (f y) \<union> set (concat (map f (drop (Suc i) xs)))" .
  show ?thesis
    unfolding c d by blast
qed

lemma clustered_add_object:
  "set (concat (map c_objects (add_object tolerance cs obj))) =
     set (concat (map c_objects cs)) \<union> (if getPrimaryCoordinates obj = None then {} else {obj})"
proof (cases "getPrimaryCoordinates obj")
  case None
  then show ?thesis by (simp add: add_object_def)
next
  case (Some coords)
  from add_object_cases[OF Some, of cs tolerance] show ?thesis
  proof (elim disjE exE conjE)
    fix i
    assume i: "i < length cs"
      and eq: "add_object tolerance cs obj = cs[i := join_cluster (cs ! i) obj (lat coords) (lng coords)]"
    have j: "c_objects (join_cluster (cs ! i) obj (lat coords) (lng coords)) = c_objects (cs ! i) @ [obj]"
      by (simp add: join_cluster_def Let_def)
    have mem: "set (c_objects (cs ! i)) \<subseteq> set (concat (map c_objects cs))"
      using i by (auto intro: nth_mem)
    have "set (concat (map c_objects (cs[i := join_cluster (cs ! i) obj (lat coords) (lng coords)])))
            \<union> set (c_objects (cs ! i))
          = set (concat (map c_objects cs)) \<union> set (c_objects (cs ! i) @ [obj])"
      using set_concat_update[OF i, of c_objects] j by simp
    moreover have "set (c_objects (cs ! i) @ [obj])
        \<subseteq> set (concat (map c_objects (cs[i := join_cluster (cs ! i) obj (lat coords) (lng coords)])))"
      using i j by (auto simp: set_update_memI[where xs = cs] intro!: bexI[of _ "join_cluster (cs ! i) obj (lat coords) (lng coords)"])
    ultimately show ?thesis
      using mem Some unfolding eq by auto
  next
    assume "add_object tolerance cs obj = cs @ [\<lparr>c_lat = lat coords, c_lng = lng coords, c_objects = [obj]\<rparr>]"
    then show ?thesis using Some by simp
  qed
qed

lemma clustered_pass:
  "set (concat (map c_objects (cluster_pass tolerance items)))
     = {obj \<in> set items. getPrimaryCoordinates obj \<noteq> None}"
proof -
  have "set (concat (map c_objects (foldl (add_object tolerance) cs items)))
      = set (concat (map c_objects cs)) \<union> {obj \<in> set items. getPrimaryCoordinates obj \<noteq> None}" for cs
  proof (induction items arbitrary: cs)
    case Nil
    then show ?case by simp
  next
    case (Cons obj items)
    show ?case
      unfolding foldl.simps Cons clustered_add_object by auto
  qed
  from this[of "[]"] show ?thesis by (simp add: cluster_pass_def)
qed

lemma marker_objects_iff:
  "(obj \<in> set (concat (map marker_objects (getMarkerDescriptors items zoom))))
     = (obj \<in> set items \<and> getPrimaryCoordinates obj \<noteq> None)"
proof (cases "zoom < 15")
  case True
  have "map marker_objects (getMarkerDescriptors items zoom)
          = map c_objects (cluster_pass (tolerance_of zoom) items)"
    unfolding getMarkerDescriptors_low_zoom[OF True] by (simp add: marker_objects_descriptor)
  then show ?thesis
    using clustered_pass[of "tolerance_of zoom" items] by simp
next
  case False
  then have "getMarkerDescriptors items zoom =
      (if length items = 0 then []
       else List.map_filter (\<lambda>obj. case getPrimaryCoordinates obj of
               None \<Rightarrow> None | Some coords \<Rightarrow> Some (Single (lat coords) (lng coords) obj)) items)"
    by (simp add: getMarkerDescriptors_def)
  then show ?thesis
    by (auto simp: List.map_filter_def marker_objects_def split: if_splits option.splits)
qed

subsection \<open>The objects of the intruder list\<close>

lemma intruder_objects_iff:
  "(obj \<in> set (map i_object (intruders ar events (Some p) r))) =
     (0 < r \<and>
      find (\<lambda>x. obj_id x = obj_id obj \<and> reading ar p r x \<noteq> None) (all_objects events) = Some obj)"
proof (cases "0 < r")
  case False
  then show ?thesis by (simp add: intruders_def)
next
  case True
  let ?key = "\<lambda>e. obj_id (i_object e)"
  let ?first = "\<lambda>k. find (\<lambda>x. obj_id x = k \<and> reading ar p r x \<noteq> None) (all_objects events)"
  have look: "find (\<lambda>e. ?key e = k) (intruders ar events (Some p) r) =
      (case ?first k of None \<Rightarrow> None | Some x \<Rightarrow> reading ar p r x)" for k
    using intruders_lookup[OF True, of ar events p k]
    by (simp add: in_range_readings_def find_readings)
  have dist: "distinct (map ?key (intruders ar events (Some p) r))"
    using intruders_lookup[OF True] by (rule conjunct1)
  show ?thesis
  proof
    assume "obj \<in> set (map i_object (intruders ar events (Some p) r))"
    then obtain e where e: "e \<in> set (intruders ar events (Some p) r)" "i_object e = obj"
      by auto
    then have "find (\<lambda>e'. ?key e' = obj_id obj) (intruders ar events (Some p) r) = Some e"
      using find_distinct_key[OF dist, of "obj_id obj" e] by simp
    then obtain x where x: "?first (obj_id obj) = Some x" "reading ar p r x = Some e"
      unfolding look by (auto split: option.splits)
    then have "x = obj"
      using reading_Some e(2) by blast
    with x True show "0 < r \<and> ?first (obj_id obj) = Some obj" by simp
  next
    assume a: "0 < r \<and> ?first (obj_id obj) = Some obj"
    then have "reading ar p r obj \<noteq> None"
      by (auto simp: find_Some_iff)
    then obtain e where r: "reading ar p r obj = Some e" by auto
    then have "find (\<lambda>e'. ?key e' = obj_id obj) (intruders ar events (Some p) r) = Some e"
      unfolding look using a by simp
    then have "e \<in> set (intruders ar events (Some p) r)"
      using find_distinct_key[OF dist, of "obj_id obj" e] by simp
    moreover have "i_object e = obj"
      using r reading_Some by blast
    ultimately show "obj \<in> set (map i_object (intruders ar events (Some p) r))"
      by force
  qed
qed

subsection \<open>The sample objects\<close>

lemma telemetry_only_facts:
  "getObjectLatitude drone_telemetry_only = Some (143 / 10)"
  "getObjectLongitude drone_telemetry_only = Some (10117 / 100)"
  "getPrimaryCoordinates drone_telemetry_only = None"
  "reading ar p r drone_telemetry_only = None"
  by (simp_all add: getObjectLatitude_def getObjectLongitude_def extractCoordinate_def
        extractFromSource_def orElse_def truthy_def drone_telemetry_only_def get_prop_def
        get_member_def toValidNumber_def getPrimaryCoordinates_def nullish_def
        toOptionalNumber_def reading_def numberOrParse_def parse_defs)

lemma alias_mismatch_facts:
  "getObjectLatitude drone_alias_mismatch = Some 5"
  "getObjectLongitude drone_alias_mismatch = Some 1"
  "getPrimaryCoordinates drone_alias_mismatch = None"
  "reading ar p r drone_alias_mismatch = None"
  by (simp_all add: getObjectLatitude_def getObjectLongitude_def extractCoordinate_def
        extractFromSource_def orElse_def truthy_def drone_alias_mismatch_def get_prop_def
        get_member_def toValidNumber_def getPrimaryCoordinates_def nullish_def
        toOptionalNumber_def reading_def numberOrParse_def parse_defs)

lemma both_facts:
  "getObjectLatitude drone_both = Some 1"
  "getObjectLongitude drone_both = Some 2"
  "getPrimaryCoordinates drone_both = Some \<lparr>lat = 1, lng = 2\<rparr>"
  by (simp_all add: getObjectLatitude_def getObjectLongitude_def extractCoordinate_def
        extractFromSource_def orElse_def truthy_def drone_both_def get_prop_def
        get_member_def toValidNumber_def getPrimaryCoordinates_def nullish_def
        toOptionalNumber_def parse_defs)

lemma marker_c_facts:
  "getObjectLatitude marker_c = Some 0"
  "getObjectLongitude marker_c = Some (19 / 10000)"
  "reading ar p r marker_c = None"
  by (simp_all add: getObjectLatitude_def getObjectLongitude_def extractCoordinate_def
        extractFromSource_def orElse_def truthy_def marker_c_def get_prop_def
        get_member_def toValidNumber_def reading_def numberOrParse_def parse_defs)

text \<open>
  Claim C2, as it stands, fails: an object whose coordinates are in the telemetry block
  only has a latitude and a longitude for the popup, and has no marker at any zoom and
  is no intruder, even at the defended point itself.
\<close>

theorem telemetry_only_object_counterexample:
  "getObjectLatitude drone_telemetry_only = Some (143 / 10) \<and>
   getObjectLongitude drone_telemetry_only = Some (10117 / 100) \<and>
   getPrimaryCoordinates drone_telemetry_only = None \<and>
   getMarkerDescriptors [drone_telemetry_only] 12 = [] \<and>
   getMarkerDescriptors [drone_telemetry_only] 16 = [] \<and>
   intruders double_arith [telemetry_event] (Some \<lparr>lat = 143 / 10, lng = 10117 / 100\<rparr>) 1500 = [] \<and>
   intruders exact_arith [telemetry_event] (Some \<lparr>lat = 143 / 10, lng = 10117 / 100\<rparr>) 1500 = []"
proof -
  have "getMarkerDescriptors [drone_telemetry_only] 12 = []"
    "getMarkerDescriptors [drone_telemetry_only] 16 = []"
    by (simp_all add: getMarkerDescriptors_def add_object_def telemetry_only_facts(3)
          map_filter_simps)
  moreover have "in_range_readings ar q 1500 [telemetry_event] = []" for ar q
    by (simp add: in_range_readings_def all_objects_def telemetry_event_def map_filter_simps
          telemetry_only_facts(4))
  then have "intruders ar [telemetry_event] (Some \<lparr>lat = 143 / 10, lng = 10117 / 100\<rparr>) 1500 = []"
    for ar
    by (simp add: intruders_readings map_values_def js_sort_def)
  ultimately show ?thesis
    using telemetry_only_facts(1,2,3) by simp
qed

text \<open>
  Claim C2, amended.  The resolution of \<^verbatim>\<open>utils/objectGeo.ts\<close>, which the detection
  popup uses, takes a coordinate from the first candidate that is a finite number or a
  string that parses to one, where the candidates are the direct fields of the object
  under the keys, then the fields of the telemetry block \<^verbatim>\<open>details\<close>, then those of
  \<^verbatim>\<open>detail\<close>; without such a candidate there is no position, never zero.  All three
  consumers accept exactly the finite numbers and the strings that parse to one.  The
  clustering does not use that resolution: it takes the first present one of the direct
  fields \<^verbatim>\<open>lat\<close>, \<^verbatim>\<open>latitude\<close> and the first present one of \<^verbatim>\<open>lng\<close>, \<^verbatim>\<open>long\<close>,
  \<^verbatim>\<open>lon\<close>, and an object stands behind a marker exactly when it is an item and both are
  numeric.  The alerting takes the direct fields \<^verbatim>\<open>lat\<close> and \<^verbatim>\<open>lng\<close> only: an object is
  read exactly when both are numeric and its distance is not greater than the radius, and
  it is in the intruder list exactly when it is the first object read with its id.  The
  telemetry block is consulted by neither.
\<close>

theorem coordinate_resolution:
  "extractCoordinate obj keys = first_number (candidates obj keys) \<and>
   getObjectLatitude obj = first_number (candidates obj [''lat'', ''latitude'']) \<and>
   getObjectLongitude obj = first_number (candidates obj [''lng'', ''lon'', ''long'', ''longitude'']) \<and>
   toValidNumber v = numeric v \<and>
   toOptionalNumber v = numeric v \<and>
   (numberOrParse v = Finite x) = (numeric v = Some x) \<and>
   (numeric v = Some x) = (v = JNum (Finite x) \<or> (\<exists>s. v = JStr s \<and> parseFloat s = Finite x)) \<and>
   getPrimaryCoordinates obj =
     (case numeric (first_present obj [''lat'', ''latitude'']) of
        None \<Rightarrow> None
      | Some a \<Rightarrow>
          (case numeric (first_present obj [''lng'', ''long'', ''lon'']) of
             None \<Rightarrow> None
           | Some b \<Rightarrow> Some \<lparr>lat = a, lng = b\<rparr>)) \<and>
   (obj \<in> set (concat (map marker_objects (getMarkerDescriptors items zoom))))
     = (obj \<in> set items \<and> getPrimaryCoordinates obj \<noteq> None) \<and>
   (reading ar p detectionRadius obj \<noteq> None) =
     (\<exists>la lo. numeric (get_prop obj ''lat'') = Some la \<and> numeric (get_prop obj ''lng'') = Some lo \<and>
        \<not> js_gt (calculateDistanceMeters ar p \<lparr>lat = la, lng = lo\<rparr>) detectionRadius) \<and>
   (obj \<in> set (map i_object (intruders ar events (Some p) detectionRadius))) =
     (0 < detectionRadius \<and>
      find (\<lambda>x. obj_id x = obj_id obj \<and> reading ar p detectionRadius x \<noteq> None) (all_objects events)
        = Some obj) \<and>
   intruders ar events None detectionRadius = []"
proof (intro conjI)
  show "extractCoordinate obj keys = first_number (candidates obj keys)"
    by (rule extractCoordinate_candidates)
  show "getObjectLatitude obj = first_number (candidates obj [''lat'', ''latitude''])"
    unfolding getObjectLatitude_def by (rule extractCoordinate_candidates)
  show "getObjectLongitude obj = first_number (candidates obj [''lng'', ''lon'', ''long'', ''longitude''])"
    unfolding getObjectLongitude_def by (rule extractCoordinate_candidates)
  show "toValidNumber v = numeric v"
    by (rule toValidNumber_numeric)
  show "toOptionalNumber v = numeric v"
    by (rule toOptionalNumber_numeric)
  show "(numberOrParse v = Finite x) = (numeric v = Some x)"
    by (rule numberOrParse_numeric)
  show "(numeric v = Some x) = (v = JNum (Finite x) \<or> (\<exists>s. v = JStr s \<and> parseFloat s = Finite x))"
    by (rule numeric_iff)
  show "getPrimaryCoordinates obj =
     (case numeric (first_present obj [''lat'', ''latitude'']) of
        None \<Rightarrow> None
      | Some a \<Rightarrow>
          (case numeric (first_present obj [''lng'', ''long'', ''lon'']) of
             None \<Rightarrow> None
           | Some b \<Rightarrow> Some \<lparr>lat = a, lng = b\<rparr>))"
    by (rule getPrimaryCoordinates_first_present)
  show "(obj \<in> set (concat (map marker_objects (getMarkerDescriptors items zoom))))
     = (obj \<in> set items \<and> getPrimaryCoordinates obj \<noteq> None)"
    by (rule marker_objects_iff)
  show "(reading ar p detectionRadius obj \<noteq> None) =
     (\<exists>la lo. numeric (get_prop obj ''lat'') = Some la \<and> numeric (get_prop obj ''lng'') = Some lo \<and>
        \<not> js_gt (calculateDistanceMeters ar p \<lparr>lat = la, lng = lo\<rparr>) detectionRadius)"
    by (rule reading_iff)
  show "(obj \<in> set (map i_object (intruders ar events (Some p) detectionRadius))) =
     (0 < detectionRadius \<and>
      find (\<lambda>x. obj_id x = obj_id obj \<and> reading ar p detectionRadius x \<noteq> None) (all_objects events)
        = Some obj)"
    by (rule intruder_objects_iff)
  show "intruders ar events None detectionRadius = []"
    by (simp add: intruders_def)
qed

text \<open>
  Four objects in one event: one with its coordinates under \<^verbatim>\<open>latitude\<close> and \<^verbatim>\<open>lon\<close>,
  one with coordinates in the telemetry block only, one whose \<^verbatim>\<open>lat\<close> is the string
  \<^verbatim>\<open>abc\<close> beside a numeric \<^verbatim>\<open>latitude\<close>, and one with coordinates in its direct
  fields and in the telemetry block.  The popup resolves a position for all four, and
  takes the direct field of the last; the clustering puts the first and the last behind a
  marker; the alerting, around the position of the last, reads the last only.
\<close>

theorem coordinate_resolution_witness:
  "getObjectLatitude drone_both = Some 1 \<and>
   get_member (get_prop drone_both ''details'') ''lat'' = JNum (Finite 3) \<and>
   getObjectLatitude drone_telemetry_only = Some (143 / 10) \<and>
   getObjectLatitude drone_alias_mismatch = Some 5 \<and>
   getObjectLatitude marker_c = Some 0 \<and>
   getPrimaryCoordinates drone_telemetry_only = None \<and>
   getPrimaryCoordinates drone_alias_mismatch = None \<and>
   set (concat (map marker_objects
          (getMarkerDescriptors [marker_c, drone_telemetry_only, drone_alias_mismatch, drone_both] 12)))
     = {marker_c, drone_both} \<and>
   set (map i_object (intruders exact_arith [mixed_event] (Some \<lparr>lat = 1, lng = 2\<rparr>) 1500))
     = {drone_both}"
proof -
  let ?items = "[marker_c, drone_telemetry_only, drone_alias_mismatch, drone_both]"
  let ?p = "\<lparr>lat = 1, lng = 2\<rparr>"
  note t = coordinate_resolution[where items = ?items and zoom = 12 and ar = exact_arith
      and events = "[mixed_event]" and p = ?p and detectionRadius = 1500]
  have lat_both: "getObjectLatitude drone_both = Some 1"
    using t[where obj = drone_both, THEN conjunct2, THEN conjunct1]
    by (simp add: both_facts)
  have details: "get_member (get_prop drone_both ''details'') ''lat'' = JNum (Finite 3)"
    by (simp add: drone_both_def get_prop_def get_member_def)
  have ne: "marker_c \<noteq> drone_telemetry_only" "marker_c \<noteq> drone_alias_mismatch"
    "marker_c \<noteq> drone_both" "drone_both \<noteq> drone_telemetry_only"
    "drone_both \<noteq> drone_alias_mismatch"
    by (simp_all add: marker_c_def drone_telemetry_only_def drone_alias_mismatch_def drone_both_def)
  have prim: "getPrimaryCoordinates marker_c \<noteq> None" "getPrimaryCoordinates drone_both \<noteq> None"
    "getPrimaryCoordinates drone_telemetry_only = None"
    "getPrimaryCoordinates drone_alias_mismatch = None"
    by (simp_all add: marker_coordinates both_facts telemetry_only_facts alias_mismatch_facts)
  have mark: "(obj \<in> set (concat (map marker_objects (getMarkerDescriptors ?items 12))))
      = (obj \<in> set ?items \<and> getPrimaryCoordinates obj \<noteq> None)" for obj
    using t[where obj = obj] by (simp only:)
  have markers: "set (concat (map marker_objects (getMarkerDescriptors ?items 12)))
      = {marker_c, drone_both}"
    unfolding set_eq_iff mark using prim by auto
  have ids: "obj_id marker_c = JStr ''obj_c''" "obj_id drone_telemetry_only = JStr ''obj_003''"
    "obj_id drone_alias_mismatch = JStr ''obj_004''" "obj_id drone_both = JStr ''obj_005''"
    by (simp_all add: obj_id_def get_prop_def marker_c_def drone_telemetry_only_def
          drone_alias_mismatch_def drone_both_def)
  have all: "all_objects [mixed_event] = ?items"
    by (simp add: all_objects_def mixed_event_def)
  have read: "reading exact_arith ?p 1500 marker_c = None"
    "reading exact_arith ?p 1500 drone_telemetry_only = None"
    "reading exact_arith ?p 1500 drone_alias_mismatch = None"
    by (rule marker_c_facts(3) telemetry_only_facts(4) alias_mismatch_facts(4))+
  have read_both: "reading exact_arith ?p 1500 drone_both \<noteq> None"
    by (simp add: reading_def drone_both_def get_prop_def numberOrParse_def parse_defs
          calculateDistanceMeters_exact great_circle_same js_gt_def Let_def)
  have intr: "(obj \<in> set (map i_object (intruders exact_arith [mixed_event] (Some ?p) 1500))) =
      (find (\<lambda>x. obj_id x = obj_id obj \<and> reading exact_arith ?p 1500 x \<noteq> None) ?items = Some obj)"
    for obj
    using t[where obj = obj] unfolding all by simp
  have intruders: "set (map i_object (intruders exact_arith [mixed_event] (Some ?p) 1500))
      = {drone_both}"
    unfolding set_eq_iff intr using read read_both ids by (auto split: if_splits)
  show ?thesis
    by (intro conjI)
       (rule lat_both details telemetry_only_facts(1) alias_mismatch_facts(1) marker_c_facts(1)
          prim(3) prim(4) markers intruders)+
qed

end
